theory Spec2Isabelle
  imports Main "HOL-Library.Word"
begin

section \<open>Data model\<close>

text \<open>
  A shallow embedding of \<^verbatim>\<open>ngrom.cpp\<close>, the Genesis ROM conversion utility.
  Bytes (\<^verbatim>\<open>unsigned char\<close>) are 8-bit words and buffers are lists of bytes. The
  source passes buffers as bare pointers to arrays of a fixed size; reading or writing a
  list beyond its length has no counterpart in the model, so every theorem about a buffer
  states the length the program allocates for it.
\<close>

type_synonym byte = "8 word"

datatype RomFormat = UNK_FMT | SMD | BIN

datatype FileCheckAction = UNSET | STOP | WARN | SKIP

definition NUM_HEADER_BYTES :: nat where
  "NUM_HEADER_BYTES = 512"

definition NUM_SMD_BLOCK_BYTES :: nat where
  "NUM_SMD_BLOCK_BYTES = 16384"

section \<open>The C library and Qt calls the program makes\<close>

text \<open>
  \<^verbatim>\<open>memcmp(s1, s2, n)\<close> compares the first \<open>n\<close> bytes as unsigned values; the result is
  zero exactly when they agree, and otherwise has the sign of the first difference. The
  program only tests the result against zero. \<^verbatim>\<open>memset\<close> and \<^verbatim>\<open>memcpy\<close> overwrite the
  first \<open>n\<close> bytes of their destination.
\<close>

fun memcmp :: "byte list \<Rightarrow> byte list \<Rightarrow> nat \<Rightarrow> int" where
  "memcmp s1 s2 0 = 0"
| "memcmp s1 s2 (Suc n) =
     (if hd s1 = hd s2 then memcmp (tl s1) (tl s2) n
      else if hd s1 < hd s2 then - 1 else 1)"

definition memset :: "byte list \<Rightarrow> byte \<Rightarrow> nat \<Rightarrow> byte list" where
  "memset s c n = replicate n c @ drop n s"

definition memcpy :: "byte list \<Rightarrow> byte list \<Rightarrow> nat \<Rightarrow> byte list" where
  "memcpy dest src n = take n src @ drop n dest"

text \<open>A string literal of the source as the bytes it stands for.\<close>

definition bytes_of :: "string \<Rightarrow> byte list" where
  "bytes_of s = map of_char s"

text \<open>
  Printing a \<^verbatim>\<open>char*\<close> stops at the first zero byte; printing one \<^verbatim>\<open>char\<close> writes it
  whatever its value. \<^verbatim>\<open>%02X\<close> prints a byte as two upper-case hexadecimal digits, and
  an unsigned integer sent to a stream is printed in decimal.
\<close>

definition to_char :: "byte \<Rightarrow> char" where
  "to_char b = char_of (unat b)"

definition cstring :: "byte list \<Rightarrow> string" where
  "cstring s = map to_char (takeWhile (\<lambda>b. b \<noteq> 0) s)"

definition hex_digit :: "nat \<Rightarrow> char" where
  "hex_digit d = ''0123456789ABCDEF'' ! d"

definition hex02X :: "byte \<Rightarrow> string" where
  "hex02X b = [hex_digit (unat b div 16), hex_digit (unat b mod 16)]"

fun show_nat :: "nat \<Rightarrow> string" where
  "show_nat n =
     (if n < 10 then [''0123456789'' ! n]
      else show_nat (n div 10) @ [''0123456789'' ! (n mod 10)])"

declare show_nat.simps [simp del]

text \<open>
  The program's effects are its console output and its file operations. The world holds
  the regular files by path (two different path strings are two different files), which
  paths may be opened for reading and for writing, the room left on the device, and the
  trace of what the program printed (one entry per line, with its stream) and of the
  \<^verbatim>\<open>fopen\<close> calls it made.
\<close>

datatype ostream = Cout | Cerr

datatype event = Print ostream string | Fopen string string

datatype errno = ENOENT | EACCES

fun strerror :: "errno \<Rightarrow> string" where
  "strerror ENOENT = ''No such file or directory''"
| "strerror EACCES = ''Permission denied''"

record world =
  files :: "string \<rightharpoonup> byte list"
  readable :: "string \<Rightarrow> bool"
  writable :: "string \<Rightarrow> bool"
  space :: nat
  trace :: "event list"

definition print :: "ostream \<Rightarrow> string \<Rightarrow> world \<Rightarrow> world" where
  "print s line w = w\<lparr>trace := trace w @ [Print s line]\<rparr>"

text \<open>
  A file opened for reading is its contents and a position. \<^verbatim>\<open>fopen(path, "r")\<close> fails
  on a missing or unreadable file; \<^verbatim>\<open>fopen(path, "w")\<close> creates or truncates the file
  and fails where the path is not writable. \<^verbatim>\<open>fread\<close> stores as many bytes as are left,
  up to \<open>n\<close>, at the start of the buffer and returns their number; \<^verbatim>\<open>fwrite\<close> appends
  as many bytes as the device has room for.
\<close>

record rfile =
  data :: "byte list"
  pos :: nat

definition fopen_r :: "string \<Rightarrow> world \<Rightarrow> (errno + rfile) \<times> world" where
  "fopen_r path w =
     (let w' = w\<lparr>trace := trace w @ [Fopen path ''r'']\<rparr>
      in case files w path of
           None \<Rightarrow> (Inl ENOENT, w')
         | Some d \<Rightarrow>
             if readable w path then (Inr \<lparr>data = d, pos = 0\<rparr>, w') else (Inl EACCES, w'))"

definition fopen_w :: "string \<Rightarrow> world \<Rightarrow> (errno + string) \<times> world" where
  "fopen_w path w =
     (let w' = w\<lparr>trace := trace w @ [Fopen path ''w'']\<rparr>
      in if writable w path then (Inr path, w'\<lparr>files := (files w')(path \<mapsto> [])\<rparr>)
         else (Inl EACCES, w'))"

definition fread :: "byte list \<Rightarrow> nat \<Rightarrow> rfile \<Rightarrow> byte list \<times> nat \<times> rfile" where
  "fread buf n f =
     (let chunk = take n (drop (pos f) (data f))
      in (chunk @ drop (length chunk) buf, length chunk, f\<lparr>pos := pos f + length chunk\<rparr>))"

definition fseek_set :: "rfile \<Rightarrow> nat \<Rightarrow> rfile" where
  "fseek_set f off = f\<lparr>pos := off\<rparr>"

definition fwrite :: "byte list \<Rightarrow> nat \<Rightarrow> string \<Rightarrow> world \<Rightarrow> nat \<times> world" where
  "fwrite buf n path w =
     (let k = min n (space w);
          old = (case files w path of None \<Rightarrow> [] | Some d \<Rightarrow> d)
      in (k, w\<lparr>files := (files w)(path \<mapsto> old @ take k buf), space := space w - k\<rparr>))"

text \<open>
  Qt: \<^verbatim>\<open>QFileInfo::exists\<close> and \<^verbatim>\<open>size\<close> (0 for a file that does not exist),
  \<^verbatim>\<open>fileName\<close> (what follows the last slash), \<^verbatim>\<open>suffix\<close> (what follows the last dot
  of the file name, empty when it has none), \<^verbatim>\<open>QString::toLower\<close> (on the letters A to Z;
  no other character becomes one of s, m, d) and \<^verbatim>\<open>QString::replace(position, n, after)\<close>.
\<close>

definition QFileInfo_exists :: "world \<Rightarrow> string \<Rightarrow> bool" where
  "QFileInfo_exists w path = (files w path \<noteq> None)"

definition QFileInfo_size :: "world \<Rightarrow> string \<Rightarrow> nat" where
  "QFileInfo_size w path = (case files w path of None \<Rightarrow> 0 | Some d \<Rightarrow> length d)"

definition QFileInfo_fileName :: "string \<Rightarrow> string" where
  "QFileInfo_fileName path = rev (takeWhile (\<lambda>c. c \<noteq> CHR ''/'') (rev path))"

definition QFileInfo_suffix :: "string \<Rightarrow> string" where
  "QFileInfo_suffix path =
     (let fn = QFileInfo_fileName path
      in if CHR ''.'' \<in> set fn then rev (takeWhile (\<lambda>c. c \<noteq> CHR ''.'') (rev fn)) else [])"

definition toLower_char :: "char \<Rightarrow> char" where
  "toLower_char c =
     (let n = of_char c :: nat in if 65 \<le> n \<and> n \<le> 90 then char_of (n + 32) else c)"

definition toLower :: "string \<Rightarrow> string" where
  "toLower s = map toLower_char s"

definition QString_replace :: "string \<Rightarrow> nat \<Rightarrow> nat \<Rightarrow> string \<Rightarrow> string" where
  "QString_replace s position n after = take position s @ after @ drop (position + n) s"

section \<open>Format Detector\<close>

definition getLikelyFormat :: "byte list \<Rightarrow> RomFormat" where
  "getLikelyFormat headerBytes =
     (if 0 = memcmp (drop 0x100 headerBytes) (bytes_of ''SEGA'') 4 then BIN
      else if headerBytes ! 8 = 0xAA \<and> headerBytes ! 9 = 0xBB then SMD
      else UNK_FMT)"

section \<open>Block Codec\<close>

text \<open>
  \<^verbatim>\<open>decodeSMDBlock\<close>: the loop runs \<open>i\<close> from 0 to 8191 with \<open>evenByte\<close> and \<open>oddByte\<close>
  stepping by two, storing \<^verbatim>\<open>src[i]\<close> at the odd and \<^verbatim>\<open>src[i+8192]\<close> at the even position.
\<close>

function decode_loop :: "nat \<Rightarrow> nat \<Rightarrow> nat \<Rightarrow> byte list \<Rightarrow> byte list \<Rightarrow> byte list" where
  "decode_loop i evenByte oddByte destBINBlock srcSMDBlock =
     (if i < 8192
      then decode_loop (i + 1) (evenByte + 2) (oddByte + 2)
             (destBINBlock[oddByte := srcSMDBlock ! i,
                           evenByte := srcSMDBlock ! (i + 8192)])
             srcSMDBlock
      else destBINBlock)"
  by pat_completeness auto
termination
  by (relation "measure (\<lambda>(i, evenByte, oddByte, d, s). 8192 - i)") auto

declare decode_loop.simps [simp del]

definition decodeSMDBlock :: "byte list \<Rightarrow> byte list \<Rightarrow> byte list" where
  "decodeSMDBlock destBINBlock srcSMDBlock = decode_loop 0 0 1 destBINBlock srcSMDBlock"

text \<open>
  Modelled from the spec: the BIN-to-SMD direction, the inverse transform, which the
  program does not implement. After the spec's description of an SMD block, its first 8192
  bytes are the bytes at the odd positions of the flat block, in order, and its second
  8192 bytes are those at the even positions.
\<close>

definition encodeSMDBlock :: "byte list \<Rightarrow> byte list" where
  "encodeSMDBlock binBlock =
     map (\<lambda>i. binBlock ! (2 * i + 1)) [0..<8192] @ map (\<lambda>i. binBlock ! (2 * i)) [0..<8192]"

section \<open>Format Checker\<close>

text \<open>
  \<^verbatim>\<open>checkFormats\<close>: the two branches of the loop body, one per expected format, each
  returning the new \<open>retval\<close>, the scratch buffer and the world; then the loop, which
  returns at once for any other format.
\<close>

definition checkFormats_BIN ::
  "string \<Rightarrow> bool \<Rightarrow> byte list \<Rightarrow> world \<Rightarrow> bool \<times> byte list \<times> world" where
  "checkFormats_BIN filename retval tmpBytes w =
     (let w = print Cout (''Checking file for BIN format: '' @ filename) w
      in case fopen_r filename w of
           (Inl saved_errno, w) \<Rightarrow>
             (False, tmpBytes,
              print Cerr (''  NGROM ERROR: Failed to open file... '' @ strerror saved_errno) w)
         | (Inr inFile, w) \<Rightarrow>
             (let tmpBytes = memset tmpBytes 0 NUM_HEADER_BYTES
              in case fread tmpBytes NUM_HEADER_BYTES inFile of
                   (tmpBytes, numBytesRead, inFile) \<Rightarrow>
                     if numBytesRead < NUM_HEADER_BYTES
                     then (False, tmpBytes, print Cerr ''  NGROM ERROR: Incomplete read...'' w)
                     else if 0 = memcmp (drop 0x100 tmpBytes) (bytes_of ''SEGA'') 4
                     then (retval, tmpBytes, print Cout ''  ...GOOD!'' w)
                     else (False, tmpBytes, print Cout ''  ...FAILED!'' w)))"

definition checkFormats_SMD ::
  "string \<Rightarrow> bool \<Rightarrow> byte list \<Rightarrow> world \<Rightarrow> bool \<times> byte list \<times> world" where
  "checkFormats_SMD filename retval tmpBytes w =
     (let w = print Cout (''Checking file for SMD format: '' @ filename) w
      in case fopen_r filename w of
           (Inl saved_errno, w) \<Rightarrow>
             (False, tmpBytes,
              print Cerr (''  NGROM ERROR: Failed to open file... '' @ strerror saved_errno) w)
         | (Inr inFile, w) \<Rightarrow>
             (let tmpBytes = memset tmpBytes 0 NUM_HEADER_BYTES
              in case fread tmpBytes NUM_HEADER_BYTES inFile of
                   (tmpBytes, numBytesRead, inFile) \<Rightarrow>
                     if numBytesRead < NUM_HEADER_BYTES
                     then (False, tmpBytes, print Cerr ''  NGROM ERROR: Incomplete read...'' w)
                     else if tmpBytes ! 8 \<noteq> 0xAA \<or> tmpBytes ! 9 \<noteq> 0xBB
                     then (False, tmpBytes, print Cout ''  ...FAILED!'' w)
                     else if 0 = memcmp (drop 0x100 tmpBytes) (bytes_of ''SEGA'') 4
                     then (False, tmpBytes,
                           print Cout ''  ...FAILED! (appears to be BIN format)'' w)
                     else (retval, tmpBytes, print Cout ''  ...GOOD!'' w)))"

fun show_RomFormat :: "RomFormat \<Rightarrow> string" where
  "show_RomFormat UNK_FMT = ''0''"
| "show_RomFormat SMD = ''1''"
| "show_RomFormat BIN = ''2''"

fun checkFormats_loop ::
  "RomFormat \<Rightarrow> string list \<Rightarrow> bool \<Rightarrow> byte list \<Rightarrow> world \<Rightarrow> bool \<times> world" where
  "checkFormats_loop fmt [] retval tmpBytes w = (retval, w)"
| "checkFormats_loop fmt (filename # rest) retval tmpBytes w =
     (if fmt = BIN
      then (case checkFormats_BIN filename retval tmpBytes w of
              (retval, tmpBytes, w) \<Rightarrow> checkFormats_loop fmt rest retval tmpBytes w)
      else if fmt = SMD
      then (case checkFormats_SMD filename retval tmpBytes w of
              (retval, tmpBytes, w) \<Rightarrow> checkFormats_loop fmt rest retval tmpBytes w)
      else (False,
            print Cerr (''NGROM ERROR: checkFormats not implemented for specified fmt: ''
                        @ show_RomFormat fmt) w))"

definition checkFormats :: "RomFormat \<Rightarrow> string list \<Rightarrow> world \<Rightarrow> bool \<times> world" where
  "checkFormats fmt filenameList w =
     checkFormats_loop fmt filenameList True (memset (replicate NUM_HEADER_BYTES 0) 0 NUM_HEADER_BYTES) w"

section \<open>Info Reporter\<close>

text \<open>
  \<^verbatim>\<open>showInfoList\<close>: the block that prints the header fields (\<open>okToContinue\<close>), the body
  of the loop for one file, and the loop. Both buffers live across the files of the list;
  \<open>tmpHeaderBytes\<close> is cleared for every file that opens, \<open>tmpSMDBlock\<close> only once.
  \<open>softwareType\<close> is what the three branches on the bytes at 0x180 and 0x181 print, and
  \<open>textField\<close> is what a text field prints: \<open>decodedChars\<close>, 50 bytes cleared, then \<open>n\<close>
  header bytes copied in, printed as a C string.
\<close>

definition softwareType :: "byte list \<Rightarrow> string" where
  "softwareType tmpHeaderBytes =
     (if tmpHeaderBytes ! 0x180 = of_char CHR ''G'' \<and> tmpHeaderBytes ! 0x181 = of_char CHR ''M''
      then ''Game''
      else if tmpHeaderBytes ! 0x180 = of_char CHR ''A'' \<and> tmpHeaderBytes ! 0x181 = of_char CHR ''l''
      then ''Educational''
      else [to_char (tmpHeaderBytes ! 0x180), to_char (tmpHeaderBytes ! 0x181)])"

definition textField :: "byte list \<Rightarrow> nat \<Rightarrow> nat \<Rightarrow> string" where
  "textField tmpHeaderBytes off n =
     cstring (memcpy (memset (replicate 50 0) 0 50) (drop off tmpHeaderBytes) n)"

definition showHeaderFields :: "byte list \<Rightarrow> world \<Rightarrow> world" where
  "showHeaderFields tmpHeaderBytes w =
     (let w = print Cout (''                    System: '' @ textField tmpHeaderBytes 0x100 16) w;
          w = print Cout (''                 Copyrigth: '' @ textField tmpHeaderBytes 0x110 16) w;
          w = print Cout (''      Game name (domestic): '' @ textField tmpHeaderBytes 0x120 48) w;
          w = print Cout (''      Game name (overseas): '' @ textField tmpHeaderBytes 0x150 48) w;
          w = print Cout (''             Software type: '' @ softwareType tmpHeaderBytes) w;
          w = print Cout (''  Product code and version: '' @ textField tmpHeaderBytes 0x183 11) w;
          w = print Cout (''                  Checksum: 0x''
                @ hex02X (tmpHeaderBytes ! 0x18e) @ hex02X (tmpHeaderBytes ! 0x18f)) w;
          w = print Cout (''               I/O support: '' @ textField tmpHeaderBytes 0x190 16) w;
          w = print Cout (''         ROM start address: 0x''
                @ hex02X (tmpHeaderBytes ! 0x1a0) @ hex02X (tmpHeaderBytes ! 0x1a1)
                @ hex02X (tmpHeaderBytes ! 0x1a2) @ hex02X (tmpHeaderBytes ! 0x1a3)) w;
          w = print Cout (''           ROM end address: 0x''
                @ hex02X (tmpHeaderBytes ! 0x1a4) @ hex02X (tmpHeaderBytes ! 0x1a5)
                @ hex02X (tmpHeaderBytes ! 0x1a6) @ hex02X (tmpHeaderBytes ! 0x1a7)) w;
          w = print Cout (''                Modem data: '' @ textField tmpHeaderBytes 0x1bc 20) w;
          w = print Cout (''                      Memo: '' @ textField tmpHeaderBytes 0x1c8 40) w;
          w = print Cout (''                 Countries: '' @ textField tmpHeaderBytes 0x1f0 3) w
      in w)"

definition showInfo_file ::
  "string \<Rightarrow> byte list \<Rightarrow> byte list \<Rightarrow> world \<Rightarrow> byte list \<times> byte list \<times> world" where
  "showInfo_file filename tmpHeaderBytes tmpSMDBlock w =
     (let w = print Cout (''Showing info from ROM data for file: '' @ filename) w
      in case fopen_r filename w of
           (Inl saved_errno, w) \<Rightarrow>
             (tmpHeaderBytes, tmpSMDBlock,
              print Cout ''  ... skipping.''
                (print Cerr (''  NGROM ERROR: Failed to open file... '' @ strerror saved_errno) w))
         | (Inr inFile, w) \<Rightarrow>
             (let tmpHeaderBytes = memset tmpHeaderBytes 0 NUM_SMD_BLOCK_BYTES
              in case fread tmpHeaderBytes NUM_HEADER_BYTES inFile of
                   (tmpHeaderBytes, numBytesRead, inFile) \<Rightarrow>
                     if numBytesRead < NUM_HEADER_BYTES
                     then (tmpHeaderBytes, tmpSMDBlock,
                           print Cout ''  ... skipping.''
                             (print Cerr ''  NGROM ERROR: Incomplete read...'' w))
                     else
                       (let likelyFmt = getLikelyFormat tmpHeaderBytes
                        in if likelyFmt = UNK_FMT
                           then (tmpHeaderBytes, tmpSMDBlock,
                                 print Cout ''  ... skipping.''
                                   (print Cerr ''  NGROM ERROR: Unrecognized file format...'' w))
                           else if likelyFmt = SMD
                           then (case fread tmpSMDBlock NUM_SMD_BLOCK_BYTES inFile of
                                   (tmpSMDBlock, numBytesRead, inFile) \<Rightarrow>
                                     if numBytesRead < NUM_HEADER_BYTES
                                     then (tmpHeaderBytes, tmpSMDBlock,
                                           print Cout ''  ... skipping.''
                                             (print Cerr ''  NGROM ERROR: Incomplete read...'' w))
                                     else
                                       (let tmpHeaderBytes =
                                              memset tmpHeaderBytes 0 NUM_SMD_BLOCK_BYTES;
                                            tmpHeaderBytes =
                                              decodeSMDBlock tmpHeaderBytes tmpSMDBlock
                                        in (tmpHeaderBytes, tmpSMDBlock,
                                            showHeaderFields tmpHeaderBytes w)))
                           else (tmpHeaderBytes, tmpSMDBlock,
                                 showHeaderFields tmpHeaderBytes w))))"

fun showInfoList_loop :: "string list \<Rightarrow> byte list \<Rightarrow> byte list \<Rightarrow> world \<Rightarrow> world" where
  "showInfoList_loop [] tmpHeaderBytes tmpSMDBlock w = w"
| "showInfoList_loop (filename # rest) tmpHeaderBytes tmpSMDBlock w =
     (case showInfo_file filename tmpHeaderBytes tmpSMDBlock w of
        (tmpHeaderBytes, tmpSMDBlock, w) \<Rightarrow> showInfoList_loop rest tmpHeaderBytes tmpSMDBlock w)"

definition showInfoList :: "string list \<Rightarrow> world \<Rightarrow> world" where
  "showInfoList filenameList w =
     showInfoList_loop filenameList
       (memset (replicate NUM_SMD_BLOCK_BYTES 0) 0 NUM_SMD_BLOCK_BYTES)
       (memset (replicate NUM_SMD_BLOCK_BYTES 0) 0 NUM_SMD_BLOCK_BYTES) w"

section \<open>Converter\<close>

text \<open>
  \<^verbatim>\<open>convertFiles\<close>: the output path; the loop over the blocks of one file; the part of
  the loop body from the size checks on (\<open>convertBody\<close>, whose \<open>False\<close> is the source's
  \<^verbatim>\<open>return false\<close>); and the loop over the files with the collision check. Sizes are
  natural numbers: the two subtractions of the source come after the test that the file
  has at least 16896 bytes, and the one on the length of the file name is reached only
  when the name ends in a dot and three letters, so none of them can wrap around.
\<close>

definition outFilename_of :: "string \<Rightarrow> string" where
  "outFilename_of filename =
     (let outFilename = QFileInfo_fileName filename
      in if toLower (QFileInfo_suffix filename) = ''smd''
         then (let fnameLen = length outFilename
               in QString_replace outFilename (fnameLen - 3) 3 ''bin'')
         else outFilename @ ''.bin'')"

definition outFileFullPath_of :: "string \<Rightarrow> string \<Rightarrow> string" where
  "outFileFullPath_of outdir filename = outdir @ ''/'' @ outFilename_of filename"

function convertBlocks :: "nat \<Rightarrow> nat \<Rightarrow> rfile \<Rightarrow> string \<Rightarrow> world \<Rightarrow> bool \<times> world" where
  "convertBlocks i numBlocks inSMDFile outBINFile w =
     (if i < numBlocks
      then (let smdBlockBytes = memset (replicate NUM_SMD_BLOCK_BYTES 0) 0 NUM_SMD_BLOCK_BYTES;
                binBlockBytes = memset (replicate NUM_SMD_BLOCK_BYTES 0) 0 NUM_SMD_BLOCK_BYTES
            in case fread smdBlockBytes NUM_SMD_BLOCK_BYTES inSMDFile of
                 (smdBlockBytes, numBytesRead, inSMDFile) \<Rightarrow>
                   if numBytesRead < NUM_SMD_BLOCK_BYTES
                   then (False, print Cerr ''  NGROM ERROR: Incomplete read of SMD block!'' w)
                   else (let binBlockBytes = decodeSMDBlock binBlockBytes smdBlockBytes
                         in case fwrite binBlockBytes NUM_SMD_BLOCK_BYTES outBINFile w of
                              (numBytesWritten, w) \<Rightarrow>
                                if numBytesWritten < NUM_SMD_BLOCK_BYTES
                                then (False,
                                      print Cerr ''  NGROM ERROR: Incomplete write of BIN block!'' w)
                                else convertBlocks (i + 1) numBlocks inSMDFile outBINFile w))
      else (True, w))"
  by pat_completeness auto
termination
  by (relation "measure (\<lambda>(i, numBlocks, inf, outf, w). numBlocks - i)") auto

declare convertBlocks.simps [simp del]

definition convertBody :: "string \<Rightarrow> string \<Rightarrow> world \<Rightarrow> bool \<times> world" where
  "convertBody filename outFileFullPath w =
     (let fileSize = QFileInfo_size w filename
      in if fileSize < NUM_HEADER_BYTES + NUM_SMD_BLOCK_BYTES
         then (False,
               print Cerr (''  NGROM ERROR: Input file is too small (only ''
                           @ show_nat fileSize @ '' bytes)'') w)
         else
           (let numBlocks = (fileSize - NUM_HEADER_BYTES) div NUM_SMD_BLOCK_BYTES;
                extraBytes = (fileSize - NUM_HEADER_BYTES) mod NUM_SMD_BLOCK_BYTES
            in if extraBytes > 0
               then (False,
                     print Cerr ''  NGROM ERROR: Input file does not end on 16KB block boundary (possible data corruption).'' w)
               else
                 (case fopen_r filename w of
                    (Inl saved_errno, w) \<Rightarrow>
                      (False,
                       print Cerr (''  NGROM ERROR: Failed to open INPUT file... ''
                                   @ strerror saved_errno) w)
                  | (Inr inSMDFile, w) \<Rightarrow>
                      (case fopen_w outFileFullPath w of
                         (Inl saved_errno, w) \<Rightarrow>
                           (False,
                            print Cerr (''  NGROM ERROR: Failed to open OUTPUT file... ''
                                        @ strerror saved_errno) w)
                       | (Inr outBINFile, w) \<Rightarrow>
                           (let inSMDFile = fseek_set inSMDFile NUM_HEADER_BYTES
                            in case convertBlocks 0 numBlocks inSMDFile outBINFile w of
                                 (okToContinue, w) \<Rightarrow>
                                   if okToContinue
                                   then (True, print Cout ''  Conversion complete!'' w)
                                   else (False, w))))))"

fun convertFiles :: "string list \<Rightarrow> string \<Rightarrow> FileCheckAction \<Rightarrow> world \<Rightarrow> bool \<times> world" where
  "convertFiles [] outdir fileCollisionAction w = (True, w)"
| "convertFiles (filename # rest) outdir fileCollisionAction w =
     (let outFileFullPath = outFileFullPath_of outdir filename;
          w = print Cout (''Converting '' @ filename) w;
          w = print Cout (''        to '' @ outFileFullPath) w
      in if QFileInfo_exists w outFileFullPath
         then (let w = print Cerr ''  NGROM WARNING: Output file already exists!'' w
               in if fileCollisionAction = STOP then (False, w)
                  else if fileCollisionAction = SKIP
                  then convertFiles rest outdir fileCollisionAction
                         (print Cout ''  ...skipping!'' w)
                  else (case convertBody filename outFileFullPath w of
                          (ok, w) \<Rightarrow>
                            if ok then convertFiles rest outdir fileCollisionAction w
                            else (False, w)))
         else (case convertBody filename outFileFullPath w of
                 (ok, w) \<Rightarrow>
                   if ok then convertFiles rest outdir fileCollisionAction w
                   else (False, w)))"

section \<open>What the statements observe\<close>

text \<open>
  The paths the program passed to \<^verbatim>\<open>fopen\<close>, in order. A file that was checked or
  converted was opened; a file the program never reached was not.
\<close>

fun opened :: "event list \<Rightarrow> string list" where
  "opened [] = []"
| "opened (Fopen path mode # es) = path # opened es"
| "opened (Print s line # es) = opened es"

text \<open>
  What the Format Checker's contract asks of one file, in the spec's words: it opens, it
  has at least 512 bytes, and its header matches the expected format. BIN: the bytes at
  0x100 to 0x103 are "SEGA". SMD: byte 8 is 0xAA, byte 9 is 0xBB and the bytes at 0x100 to
  0x103 are not "SEGA". The contract names no other format, and no file matches one.
\<close>

definition file_passes :: "RomFormat \<Rightarrow> world \<Rightarrow> string \<Rightarrow> bool" where
  "file_passes expected w filename =
     (case files w filename of
        None \<Rightarrow> False
      | Some d \<Rightarrow>
          readable w filename \<and> 512 \<le> length d \<and>
          (case expected of
             BIN \<Rightarrow> take 4 (drop 0x100 d) = [0x53, 0x45, 0x47, 0x41]
           | SMD \<Rightarrow> d ! 8 = 0xAA \<and> d ! 9 = 0xBB \<and>
                    take 4 (drop 0x100 d) \<noteq> [0x53, 0x45, 0x47, 0x41]
           | UNK_FMT \<Rightarrow> False))"

text \<open>
  What the conversion of the file contents \<open>d\<close> is to produce: the decoded blocks number
  \<open>i\<close> to \<open>n - 1\<close>, each read 16384 bytes at a time after the 512-byte header.
\<close>

definition decoded_blocks :: "byte list \<Rightarrow> nat \<Rightarrow> nat \<Rightarrow> byte list" where
  "decoded_blocks d i n =
     concat (map (\<lambda>j. decodeSMDBlock (replicate 16384 0) (take 16384 (drop (512 + j * 16384) d)))
                 [i..<n])"

section \<open>Concrete inputs\<close>

text \<open>The worlds and files at which the theorems below are instantiated.\<close>

definition smd_header :: "byte list" where
  "smd_header = (replicate 512 0)[8 := 0xAA, 9 := 0xBB]"

definition rom_world :: world where
  "rom_world =
     \<lparr>files = [''good.smd'' \<mapsto> smd_header @ replicate 16384 0x41,
               ''short.smd'' \<mapsto> smd_header @ replicate 600 0x41,
               ''tiny.smd'' \<mapsto> replicate 500 0,
               ''trunc.smd'' \<mapsto> replicate 16895 0,
               ''extra.smd'' \<mapsto> replicate 16897 0,
               ''out/tiny.bin'' \<mapsto> [],
               ''out/good.bin'' \<mapsto> [1, 2, 3]],
      readable = (\<lambda>_. True), writable = (\<lambda>_. True), space = 1000000, trace = []\<rparr>"

definition header_with_type :: "byte \<Rightarrow> byte \<Rightarrow> byte list" where
  "header_with_type b0 b1 = (replicate 512 0)[0x180 := b0, 0x181 := b1]"

definition blank_world :: world where
  "blank_world =
     \<lparr>files = Map.empty, readable = (\<lambda>_. True), writable = (\<lambda>_. True), space = 0, trace = []\<rparr>"

section \<open>Properties of the Block Codec\<close>

lemma decode_loop_length:
  "length (decode_loop i e od dest src) = length dest"
proof (induction i e od dest src rule: decode_loop.induct)
  case (1 i e od dest src)
  show ?case
  proof (cases "i < 8192")
    case True
    with 1 show ?thesis by (subst decode_loop.simps) simp
  next
    case False
    then show ?thesis by (subst decode_loop.simps) simp
  qed
qed

text \<open>
  The loop invariant: started at step \<open>i\<close> with the two cursors at \<open>2i\<close> and \<open>2i+1\<close>, the
  loop leaves the positions below \<open>2i\<close> alone and fills every later one from the source.
\<close>

lemma decode_loop_nth:
  "e = 2 * i \<Longrightarrow> od = 2 * i + 1 \<Longrightarrow> i \<le> 8192 \<Longrightarrow> length dest = 16384 \<Longrightarrow> k < 16384 \<Longrightarrow>
   decode_loop i e od dest src ! k =
     (if k < 2 * i then dest ! k
      else if even k then src ! (k div 2 + 8192) else src ! (k div 2))"
proof (induction i e od dest src rule: decode_loop.induct)
  case (1 i e od dest src)
  show ?case
  proof (cases "i < 8192")
    case True
    let ?d = "dest[od := src ! i, e := src ! (i + 8192)]"
    have step: "decode_loop i e od dest src = decode_loop (i + 1) (e + 2) (od + 2) ?d src"
      using True by (subst decode_loop.simps) simp
    have ih: "decode_loop (i + 1) (e + 2) (od + 2) ?d src ! k =
        (if k < 2 * (i + 1) then ?d ! k
         else if even k then src ! (k div 2 + 8192) else src ! (k div 2))"
      using "1.IH" [OF True] "1.prems" True by simp
    show ?thesis
    proof (cases "k < 2 * i")
      case lt: True
      then have "?d ! k = dest ! k" using "1.prems" by simp
      with lt show ?thesis unfolding step ih by simp
    next
      case ge: False
      show ?thesis
      proof (cases "k < 2 * (i + 1)")
        case True
        then consider "k = e" | "k = od" using ge "1.prems" by force
        then show ?thesis
        proof cases
          case 1
          then show ?thesis unfolding step ih using "1.prems"(1,2,4) True \<open>i < 8192\<close>
            by simp
        next
          case 2
          then show ?thesis unfolding step ih using "1.prems"(1,2,4) True \<open>i < 8192\<close>
            by simp
        qed
      next
        case False
        then show ?thesis unfolding step ih using ge by simp
      qed
    qed
  next
    case False
    with "1.prems" have "i = 8192" by simp
    then show ?thesis using "1.prems" by (subst decode_loop.simps) simp
  qed
qed

lemma decodeSMDBlock_length:
  "length (decodeSMDBlock dest src) = length dest"
  by (simp add: decodeSMDBlock_def decode_loop_length)

lemma decodeSMDBlock_nth:
  "length dest = 16384 \<Longrightarrow> k < 16384 \<Longrightarrow>
   decodeSMDBlock dest src ! k = (if even k then src ! (k div 2 + 8192) else src ! (k div 2))"
  by (simp add: decodeSMDBlock_def decode_loop_nth)

text \<open>
  Claim C1. For a 16384-byte source block (and the 16384-byte destination the callers
  pass), the decoded block has 16384 bytes, and for every \<open>i\<close> below 8192 its byte at
  \<open>2i+1\<close> is the source byte at \<open>i\<close> and its byte at \<open>2i\<close> is the source byte at \<open>i+8192\<close>.
\<close>

theorem decodeSMDBlock_interleaves:
  assumes "length srcSMDBlock = 16384" and "length destBINBlock = 16384"
  shows "length (decodeSMDBlock destBINBlock srcSMDBlock) = 16384 \<and>
         (\<forall>i<8192. decodeSMDBlock destBINBlock srcSMDBlock ! (2 * i + 1) = srcSMDBlock ! i \<and>
                    decodeSMDBlock destBINBlock srcSMDBlock ! (2 * i) = srcSMDBlock ! (i + 8192))"
  using assms by (simp add: decodeSMDBlock_length decodeSMDBlock_nth)

theorem decodeSMDBlock_interleaves_witness:
  "length (replicate 8192 (1::byte) @ replicate 8192 2) = 16384 \<and>
   length (replicate 16384 (0::byte)) = 16384 \<and> (5::nat) < 8192 \<and>
   length (decodeSMDBlock (replicate 16384 0) (replicate 8192 1 @ replicate 8192 2)) = 16384 \<and>
   decodeSMDBlock (replicate 16384 0) (replicate 8192 1 @ replicate 8192 2) ! 11 = 1 \<and>
   decodeSMDBlock (replicate 16384 0) (replicate 8192 1 @ replicate 8192 2) ! 10 = 2"
proof -
  let ?src = "replicate 8192 (1::byte) @ replicate 8192 2"
  let ?dest = "replicate 16384 (0::byte)"
  have len: "length ?src = 16384" "length ?dest = 16384" by simp_all
  note C = decodeSMDBlock_interleaves [OF len]
  from C have "length (decodeSMDBlock ?dest ?src) = 16384" by (rule conjunct1)
  moreover have "decodeSMDBlock ?dest ?src ! (2 * 5 + 1) = ?src ! 5 \<and>
      decodeSMDBlock ?dest ?src ! (2 * 5) = ?src ! (5 + 8192)"
    using C [THEN conjunct2, rule_format, of 5] by simp
  ultimately show ?thesis by (simp add: nth_append)
qed

lemma encodeSMDBlock_length: "length (encodeSMDBlock b) = 16384"
  by (simp add: encodeSMDBlock_def)

lemma encodeSMDBlock_nth:
  "k < 16384 \<Longrightarrow>
   encodeSMDBlock b ! k = (if k < 8192 then b ! (2 * k + 1) else b ! (2 * (k - 8192)))"
proof (cases "k < 8192")
  case True
  then show ?thesis by (simp add: encodeSMDBlock_def nth_append)
next
  case False
  assume "k < 16384"
  with False have "k - 8192 < 8192" by simp
  with False show ?thesis by (simp add: encodeSMDBlock_def nth_append)
qed

lemma decode_encode:
  assumes "length b = 16384" and "length dest = 16384"
  shows "decodeSMDBlock dest (encodeSMDBlock b) = b"
proof (rule nth_equalityI)
  show "length (decodeSMDBlock dest (encodeSMDBlock b)) = length b"
    using assms by (simp add: decodeSMDBlock_length)
next
  fix k assume "k < length (decodeSMDBlock dest (encodeSMDBlock b))"
  then have k: "k < 16384" using assms by (simp add: decodeSMDBlock_length)
  show "decodeSMDBlock dest (encodeSMDBlock b) ! k = b ! k"
  proof (cases "even k")
    case True
    then have "2 * (k div 2) = k" by simp
    with True k assms show ?thesis
      by (simp add: decodeSMDBlock_nth encodeSMDBlock_nth)
  next
    case False
    then have "2 * (k div 2) + 1 = k" by (simp add: odd_two_times_div_two_succ)
    moreover have "k div 2 < 8192" using k by simp
    ultimately show ?thesis using False k assms
      by (simp add: decodeSMDBlock_nth encodeSMDBlock_nth)
  qed
qed

lemma encode_decode:
  assumes "length s = 16384" and "length dest = 16384"
  shows "encodeSMDBlock (decodeSMDBlock dest s) = s"
proof (rule nth_equalityI)
  show "length (encodeSMDBlock (decodeSMDBlock dest s)) = length s"
    using assms by (simp add: encodeSMDBlock_length)
next
  fix k assume "k < length (encodeSMDBlock (decodeSMDBlock dest s))"
  then have k: "k < 16384" by (simp add: encodeSMDBlock_length)
  show "encodeSMDBlock (decodeSMDBlock dest s) ! k = s ! k"
  proof (cases "k < 8192")
    case True
    then show ?thesis using k assms
      by (simp add: decodeSMDBlock_nth encodeSMDBlock_nth)
  next
    case False
    then have "2 * (k - 8192) < 16384" using k by simp
    then show ?thesis using False k assms
      by (simp add: decodeSMDBlock_nth encodeSMDBlock_nth)
  qed
qed

lemma decodeSMDBlock_bij:
  assumes "length dest = 16384"
  shows "bij_betw (decodeSMDBlock dest) {b. length b = 16384} {b. length b = 16384}"
proof (rule bij_betw_byWitness [where f' = encodeSMDBlock])
  show "\<forall>a\<in>{b. length b = 16384}. encodeSMDBlock (decodeSMDBlock dest a) = a"
    using assms by (simp add: encode_decode)
  show "\<forall>a'\<in>{b. length b = 16384}. decodeSMDBlock dest (encodeSMDBlock a') = a'"
    using assms by (simp add: decode_encode)
  show "decodeSMDBlock dest ` {b. length b = 16384} \<subseteq> {b. length b = 16384}"
    using assms by (auto simp: decodeSMDBlock_length)
  show "encodeSMDBlock ` {b. length b = 16384} \<subseteq> {b. length b = 16384}"
    by (auto simp: encodeSMDBlock_length)
qed

text \<open>
  Claim C2. On 16384-byte blocks the decoder is a bijection, and decoding the block that
  the inverse transform makes of a flat block gives that flat block back. The transform
  modelled from the spec is the inverse on both sides: encoding a decoded block gives the
  block back as well.
\<close>

theorem decodeSMDBlock_roundtrip:
  assumes "length destBINBlock = 16384"
  shows "bij_betw (decodeSMDBlock destBINBlock) {b. length b = 16384} {b. length b = 16384} \<and>
         (\<forall>binBlock. length binBlock = 16384 \<longrightarrow>
            length (encodeSMDBlock binBlock) = 16384 \<and>
            decodeSMDBlock destBINBlock (encodeSMDBlock binBlock) = binBlock) \<and>
         (\<forall>smdBlock. length smdBlock = 16384 \<longrightarrow>
            encodeSMDBlock (decodeSMDBlock destBINBlock smdBlock) = smdBlock)"
  using assms
  by (simp add: decodeSMDBlock_bij encodeSMDBlock_length decode_encode encode_decode)

theorem decodeSMDBlock_roundtrip_witness:
  "length (replicate 16384 (0::byte)) = 16384 \<and>
   length (replicate 8192 (1::byte) @ replicate 8192 2) = 16384 \<and>
   decodeSMDBlock (replicate 16384 0) (encodeSMDBlock (replicate 8192 1 @ replicate 8192 2))
     = replicate 8192 1 @ replicate 8192 2 \<and>
   encodeSMDBlock (decodeSMDBlock (replicate 16384 0) (replicate 8192 1 @ replicate 8192 2))
     = replicate 8192 1 @ replicate 8192 2"
proof -
  have len: "length (replicate 16384 (0::byte)) = 16384" by simp
  note R = decodeSMDBlock_roundtrip [OF len]
  have "decodeSMDBlock (replicate 16384 0) (encodeSMDBlock (replicate 8192 1 @ replicate 8192 2))
     = replicate 8192 1 @ replicate 8192 2"
    using R [THEN conjunct2, THEN conjunct1, rule_format,
        of "replicate 8192 1 @ replicate 8192 2"]
    by simp
  moreover have
    "encodeSMDBlock (decodeSMDBlock (replicate 16384 0) (replicate 8192 1 @ replicate 8192 2))
     = replicate 8192 1 @ replicate 8192 2"
    using R [THEN conjunct2, THEN conjunct2, rule_format,
        of "replicate 8192 1 @ replicate 8192 2"]
    by simp
  ultimately show ?thesis by simp
qed

section \<open>Properties of the Format Detector\<close>

lemma memcmp_eq_take:
  "n \<le> length s1 \<Longrightarrow> n \<le> length s2 \<Longrightarrow> (0 = memcmp s1 s2 n) = (take n s1 = take n s2)"
proof (induction n arbitrary: s1 s2)
  case 0
  then show ?case by simp
next
  case (Suc n)
  then obtain a r1 b r2 where "s1 = a # r1" "s2 = b # r2"
    by (cases s1; cases s2) simp_all
  with Suc show ?case by simp
qed

lemma take4_drop_eq:
  assumes "off + 4 \<le> length h"
  shows "(take 4 (drop off h) = [a, b, c, d]) =
         (h ! off = a \<and> h ! (off + 1) = b \<and> h ! (off + 2) = c \<and> h ! (off + 3) = d)"
proof -
  have "length (take 4 (drop off h)) = 4" using assms by simp
  then show ?thesis using assms
    by (auto simp add: list_eq_iff_nth_eq eval_nat_numeral All_less_Suc add.commute)
qed

lemma memcmp_SEGA_at:
  assumes "off + 4 \<le> length h"
  shows "(0 = memcmp (drop off h) (bytes_of ''SEGA'') 4) =
         (h ! off = 0x53 \<and> h ! (off + 1) = 0x45 \<and> h ! (off + 2) = 0x47 \<and> h ! (off + 3) = 0x41)"
proof -
  have "(0 = memcmp (drop off h) (bytes_of ''SEGA'') 4) =
        (take 4 (drop off h) = take 4 (bytes_of ''SEGA''))"
    using assms by (intro memcmp_eq_take) (simp_all add: bytes_of_def)
  also have "take 4 (bytes_of ''SEGA'') = [0x53, 0x45, 0x47, 0x41]"
    by (simp add: bytes_of_def)
  finally show ?thesis using take4_drop_eq [OF assms] by simp
qed

text \<open>
  Claim C3. On a 512-byte header region the detector answers BIN when the bytes at 0x100
  to 0x103 are the ASCII codes of "SEGA", whatever bytes 8 and 9 are; otherwise SMD when
  byte 8 is 0xAA and byte 9 is 0xBB; otherwise unknown.
\<close>

theorem getLikelyFormat_cases:
  assumes "length headerBytes = 512"
  shows "getLikelyFormat headerBytes =
           (if headerBytes ! 0x100 = 0x53 \<and> headerBytes ! 0x101 = 0x45 \<and>
               headerBytes ! 0x102 = 0x47 \<and> headerBytes ! 0x103 = 0x41
            then BIN
            else if headerBytes ! 8 = 0xAA \<and> headerBytes ! 9 = 0xBB then SMD
            else UNK_FMT)"
  using assms memcmp_SEGA_at [of "0x100" headerBytes]
  by (simp add: getLikelyFormat_def)


theorem getLikelyFormat_cases_witness:
  "length ((replicate 512 (0::byte))[8 := 0xAA, 9 := 0xBB]) = 512 \<and>
   getLikelyFormat ((replicate 512 0)[8 := 0xAA, 9 := 0xBB]) = SMD \<and>
   length ((replicate 512 (0::byte))[8 := 0xAA, 9 := 0xBB, 0x100 := 0x53, 0x101 := 0x45,
              0x102 := 0x47, 0x103 := 0x41]) = 512 \<and>
   getLikelyFormat ((replicate 512 0)[8 := 0xAA, 9 := 0xBB, 0x100 := 0x53, 0x101 := 0x45,
              0x102 := 0x47, 0x103 := 0x41]) = BIN \<and>
   length ((replicate 512 (0::byte))[8 := 0xAA]) = 512 \<and>
   getLikelyFormat ((replicate 512 0)[8 := 0xAA]) = UNK_FMT"
proof -
  have l1: "length ((replicate 512 (0::byte))[8 := 0xAA, 9 := 0xBB]) = 512"
    and l2: "length ((replicate 512 (0::byte))[8 := 0xAA, 9 := 0xBB, 0x100 := 0x53,
              0x101 := 0x45, 0x102 := 0x47, 0x103 := 0x41]) = 512"
    and l3: "length ((replicate 512 (0::byte))[8 := 0xAA]) = 512"
    by simp_all
  show ?thesis
    using getLikelyFormat_cases [OF l1] getLikelyFormat_cases [OF l2]
      getLikelyFormat_cases [OF l3]
    by simp
qed

section \<open>Properties of the Header Decoder\<close>

lemma trace_print [simp]: "trace (print s l w) = trace w @ [Print s l]"
  by (simp add: print_def)

lemma showHeaderFields_trace:
  "trace (showHeaderFields h w) = trace w @
     [Print Cout (''                    System: '' @ textField h 0x100 16),
      Print Cout (''                 Copyrigth: '' @ textField h 0x110 16),
      Print Cout (''      Game name (domestic): '' @ textField h 0x120 48),
      Print Cout (''      Game name (overseas): '' @ textField h 0x150 48),
      Print Cout (''             Software type: '' @ softwareType h),
      Print Cout (''  Product code and version: '' @ textField h 0x183 11),
      Print Cout (''                  Checksum: 0x'' @ hex02X (h ! 0x18e) @ hex02X (h ! 0x18f)),
      Print Cout (''               I/O support: '' @ textField h 0x190 16),
      Print Cout (''         ROM start address: 0x'' @ hex02X (h ! 0x1a0) @ hex02X (h ! 0x1a1)
                    @ hex02X (h ! 0x1a2) @ hex02X (h ! 0x1a3)),
      Print Cout (''           ROM end address: 0x'' @ hex02X (h ! 0x1a4) @ hex02X (h ! 0x1a5)
                    @ hex02X (h ! 0x1a6) @ hex02X (h ! 0x1a7)),
      Print Cout (''                Modem data: '' @ textField h 0x1bc 20),
      Print Cout (''                      Memo: '' @ textField h 0x1c8 40),
      Print Cout (''                 Countries: '' @ textField h 0x1f0 3)]"
  by (simp add: showHeaderFields_def Let_def)

lemma unat_of_char: "unat (of_char c :: byte) = (of_char c :: nat)"
proof -
  have "(of_char c :: byte) = of_nat (of_char c :: nat)"
    by (simp add: of_nat_of_char)
  then have "unat (of_char c :: byte) = (of_char c :: nat) mod 2 ^ 8"
    by (simp add: unat_of_nat)
  then show ?thesis by simp
qed

lemma byte_is_char: "(b = (of_char c :: byte)) = (unat b = (of_char c :: nat))"
  by (simp add: word_unat_eq_iff unat_of_char)

lemma of_char_to_char: "(of_char (to_char b) :: nat) = unat b"
proof -
  have "unat b < 2 ^ 8" using unsigned_less [of b, where ?'a = nat] by simp
  then show ?thesis by (simp add: to_char_def)
qed

text \<open>
  Claim C9. The fifth line the header decoder prints is the software type: "Game" when
  the bytes at 0x180 and 0x181 are the ASCII codes of "GM", "Educational" when they are
  the codes of "Al", and otherwise two characters whose codes are those two bytes.
\<close>

theorem softwareType_rendering:
  assumes "512 \<le> length tmpHeaderBytes"
  shows "\<exists>shown.
           trace (showHeaderFields tmpHeaderBytes w) ! (length (trace w) + 4) =
             Print Cout (''             Software type: '' @ shown) \<and>
           (if [unat (tmpHeaderBytes ! 0x180), unat (tmpHeaderBytes ! 0x181)] = map of_char ''GM''
            then shown = ''Game''
            else if [unat (tmpHeaderBytes ! 0x180), unat (tmpHeaderBytes ! 0x181)]
                      = map of_char ''Al''
            then shown = ''Educational''
            else map of_char shown =
                   [unat (tmpHeaderBytes ! 0x180), unat (tmpHeaderBytes ! 0x181)])"
proof -
  let ?b0 = "tmpHeaderBytes ! 0x180" and ?b1 = "tmpHeaderBytes ! 0x181"
  have line: "trace (showHeaderFields tmpHeaderBytes w) ! (length (trace w) + 4) =
      Print Cout (''             Software type: '' @ softwareType tmpHeaderBytes)"
    by (simp add: showHeaderFields_trace nth_append)
  have gm: "([unat ?b0, unat ?b1] = map of_char ''GM'') =
      (?b0 = of_char CHR ''G'' \<and> ?b1 = of_char CHR ''M'')"
    by (simp only: byte_is_char list.map list.inject simp_thms)
  have al: "([unat ?b0, unat ?b1] = map of_char ''Al'') =
      (?b0 = of_char CHR ''A'' \<and> ?b1 = of_char CHR ''l'')"
    by (simp only: byte_is_char list.map list.inject simp_thms)
  have "if [unat ?b0, unat ?b1] = map of_char ''GM'' then softwareType tmpHeaderBytes = ''Game''
        else if [unat ?b0, unat ?b1] = map of_char ''Al''
        then softwareType tmpHeaderBytes = ''Educational''
        else map of_char (softwareType tmpHeaderBytes) = [unat ?b0, unat ?b1]"
    unfolding gm al by (simp add: softwareType_def of_char_to_char)
  with line show ?thesis by blast
qed

lemma header_with_type_bytes:
  "512 \<le> length (header_with_type b0 b1)"
  "header_with_type b0 b1 ! 0x180 = b0" "header_with_type b0 b1 ! 0x181 = b1"
  by (simp_all add: header_with_type_def)

lemma shown_chars:
  assumes "map of_char shown = [of_char c0, of_char c1 :: nat]"
  shows "shown = [c0, c1]"
proof -
  from assms obtain x y where s: "shown = [x, y]" by (cases shown; cases "tl shown") auto
  with assms show ?thesis by simp
qed

theorem softwareType_rendering_witness:
  "512 \<le> length (header_with_type 0x47 0x4D) \<and>
   trace (showHeaderFields (header_with_type 0x47 0x4D) blank_world) ! 4 =
     Print Cout ''             Software type: Game'' \<and>
   512 \<le> length (header_with_type 0x41 0x6C) \<and>
   trace (showHeaderFields (header_with_type 0x41 0x6C) blank_world) ! 4 =
     Print Cout ''             Software type: Educational'' \<and>
   512 \<le> length (header_with_type 0x58 0x59) \<and>
   trace (showHeaderFields (header_with_type 0x58 0x59) blank_world) ! 4 =
     Print Cout ''             Software type: XY'' \<and>
   512 \<le> length (header_with_type 0x47 0x6D) \<and>
   trace (showHeaderFields (header_with_type 0x47 0x6D) blank_world) ! 4 =
     Print Cout ''             Software type: Gm''"
proof -
  have t: "length (trace blank_world) + 4 = 4" by (simp add: blank_world_def)
  have len: "512 \<le> length (header_with_type b0 b1)" for b0 b1
    by (rule header_with_type_bytes(1))
  have game: "trace (showHeaderFields (header_with_type 0x47 0x4D) blank_world) ! 4 =
     Print Cout ''             Software type: Game''"
    using softwareType_rendering [OF len [of "0x47" "0x4D"], of blank_world]
    unfolding t header_with_type_bytes by auto
  have edu: "trace (showHeaderFields (header_with_type 0x41 0x6C) blank_world) ! 4 =
     Print Cout ''             Software type: Educational''"
    using softwareType_rendering [OF len [of "0x41" "0x6C"], of blank_world]
    unfolding t header_with_type_bytes by auto
  have xy: "trace (showHeaderFields (header_with_type 0x58 0x59) blank_world) ! 4 =
     Print Cout ''             Software type: XY''"
  proof -
    obtain shown where l: "trace (showHeaderFields (header_with_type 0x58 0x59) blank_world) ! 4 =
        Print Cout (''             Software type: '' @ shown)"
      and s: "map of_char shown = [unat (0x58 :: byte), unat (0x59 :: byte)]"
      using softwareType_rendering [OF len [of "0x58" "0x59"], of blank_world]
      unfolding t header_with_type_bytes by auto
    have "map of_char shown = [of_char CHR ''X'', of_char CHR ''Y'' :: nat]"
      using s by simp
    then have "shown = ''XY''" by (rule shown_chars)
    with l show ?thesis by simp
  qed
  have gm: "trace (showHeaderFields (header_with_type 0x47 0x6D) blank_world) ! 4 =
     Print Cout ''             Software type: Gm''"
  proof -
    obtain shown where l: "trace (showHeaderFields (header_with_type 0x47 0x6D) blank_world) ! 4 =
        Print Cout (''             Software type: '' @ shown)"
      and s: "map of_char shown = [unat (0x47 :: byte), unat (0x6D :: byte)]"
      using softwareType_rendering [OF len [of "0x47" "0x6D"], of blank_world]
      unfolding t header_with_type_bytes by auto
    have "map of_char shown = [of_char CHR ''G'', of_char CHR ''m'' :: nat]"
      using s by simp
    then have "shown = ''Gm''" by (rule shown_chars)
    with l show ?thesis by simp
  qed
  show ?thesis using game edu xy gm header_with_type_bytes(1) by simp
qed

section \<open>Properties of the output file name\<close>

lemma rev_takeWhile_last_sep:
  assumes "\<forall>x\<in>set ys. x \<noteq> c"
  shows "rev (takeWhile (\<lambda>x. x \<noteq> c) (rev (xs @ c # ys))) = ys"
proof -
  have "takeWhile (\<lambda>x. x \<noteq> c) (rev ys @ c # rev xs) =
        rev ys @ takeWhile (\<lambda>x. x \<noteq> c) (c # rev xs)"
    by (rule takeWhile_append2) (use assms in auto)
  then show ?thesis by simp
qed

lemma rev_takeWhile_no_sep:
  assumes "\<forall>x\<in>set ys. x \<noteq> c"
  shows "rev (takeWhile (\<lambda>x. x \<noteq> c) (rev ys)) = ys"
proof -
  have "takeWhile (\<lambda>x. x \<noteq> c) (rev ys) = rev ys"
    by (rule takeWhile_eq_all_conv [THEN iffD2]) (use assms in auto)
  then show ?thesis by (simp only: rev_rev_ident)
qed

lemma QFileInfo_fileName_dir:
  assumes "dir = [] \<or> last dir = CHR ''/''" and "CHR ''/'' \<notin> set name"
  shows "QFileInfo_fileName (dir @ name) = name"
proof (cases "dir = []")
  case True
  moreover have "\<forall>x\<in>set name. x \<noteq> CHR ''/''" using assms(2) by auto
  ultimately show ?thesis
    unfolding QFileInfo_fileName_def by (simp only: append_Nil rev_takeWhile_no_sep)
next
  case False
  with assms(1) have "dir = butlast dir @ [CHR ''/'']"
    by (metis append_butlast_last_id)
  then have "dir @ name = butlast dir @ CHR ''/'' # name"
    by (metis append.assoc append_Cons append_Nil)
  moreover have "\<forall>x\<in>set name. x \<noteq> CHR ''/''" using assms(2) by auto
  ultimately show ?thesis
    unfolding QFileInfo_fileName_def by (simp only: rev_takeWhile_last_sep)
qed

lemma QFileInfo_suffix_ext:
  assumes "QFileInfo_fileName path = base @ ''.'' @ ext" and "CHR ''.'' \<notin> set ext"
  shows "QFileInfo_suffix path = ext"
proof -
  have "\<forall>x\<in>set ext. x \<noteq> CHR ''.''" using assms(2) by auto
  then have "rev (takeWhile (\<lambda>c. c \<noteq> CHR ''.'') (rev (base @ CHR ''.'' # ext))) = ext"
    by (rule rev_takeWhile_last_sep)
  then show ?thesis using assms(1) by (simp add: QFileInfo_suffix_def)
qed

lemma QFileInfo_suffix_none:
  assumes "CHR ''.'' \<notin> set (QFileInfo_fileName path)"
  shows "QFileInfo_suffix path = []"
  using assms by (simp add: QFileInfo_suffix_def)

lemma toLower_char_eq_lower:
  assumes "97 \<le> (of_char l :: nat)" and "(of_char l :: nat) \<le> 122"
  shows "(toLower_char c = l) = (c = l \<or> (of_char c :: nat) + 32 = of_char l)"
proof (cases "65 \<le> (of_char c :: nat) \<and> (of_char c :: nat) \<le> 90")
  case True
  then have "(of_char c :: nat) + 32 < 256" by simp
  then have "of_char (char_of ((of_char c :: nat) + 32)) = (of_char c :: nat) + 32"
    by simp
  then have "(char_of ((of_char c :: nat) + 32) = l) = ((of_char c :: nat) + 32 = of_char l)"
    by (metis char_of_char)
  moreover have "c \<noteq> l" using True assms by auto
  ultimately show ?thesis using True by (simp add: toLower_char_def)
next
  case False
  then have "(of_char c :: nat) + 32 \<noteq> of_char l" using assms by auto
  with False show ?thesis by (auto simp add: toLower_char_def Let_def)
qed

lemma of_char_add32:
  "((of_char c :: nat) + 32 = 115) = (c = CHR ''S'')"
  "((of_char c :: nat) + 32 = 109) = (c = CHR ''M'')"
  "((of_char c :: nat) + 32 = 100) = (c = CHR ''D'')"
proof -
  have *: "((of_char c :: nat) + 32 = of_char d + 32) = (c = d)" for d
    by simp
  show "((of_char c :: nat) + 32 = 115) = (c = CHR ''S'')" using * [of "CHR ''S''"] by simp
  show "((of_char c :: nat) + 32 = 109) = (c = CHR ''M'')" using * [of "CHR ''M''"] by simp
  show "((of_char c :: nat) + 32 = 100) = (c = CHR ''D'')" using * [of "CHR ''D''"] by simp
qed

lemma toLower_smd:
  "(toLower ext = ''smd'') =
   (ext \<in> {''smd'', ''smD'', ''sMd'', ''sMD'', ''Smd'', ''SmD'', ''SMd'', ''SMD''})"
proof -
  have s: "(toLower_char c = CHR ''s'') = (c = CHR ''s'' \<or> c = CHR ''S'')" for c
    using toLower_char_eq_lower [of "CHR ''s''" c] by (simp add: of_char_add32)
  have m: "(toLower_char c = CHR ''m'') = (c = CHR ''m'' \<or> c = CHR ''M'')" for c
    using toLower_char_eq_lower [of "CHR ''m''" c] by (simp add: of_char_add32)
  have d: "(toLower_char c = CHR ''d'') = (c = CHR ''d'' \<or> c = CHR ''D'')" for c
    using toLower_char_eq_lower [of "CHR ''d''" c] by (simp add: of_char_add32)
  show ?thesis
  proof (cases ext)
    case Nil
    then show ?thesis by (simp add: toLower_def)
  next
    case c1: (Cons a r1)
    show ?thesis
    proof (cases r1)
      case Nil
      with c1 show ?thesis by (simp add: toLower_def)
    next
      case c2: (Cons b r2)
      show ?thesis
      proof (cases r2)
        case Nil
        with c1 c2 show ?thesis by (simp add: toLower_def)
      next
        case c3: (Cons c r3)
        show ?thesis
        proof (cases r3)
          case Nil
          with c1 c2 c3 show ?thesis
            by (auto simp add: toLower_def s m d)
        next
          case (Cons e r4)
          with c1 c2 c3 show ?thesis by (simp add: toLower_def)
        qed
      qed
    qed
  qed
qed


lemma outFilename_of_smd:
  assumes "QFileInfo_fileName path = base @ ''.'' @ ext" and "CHR ''.'' \<notin> set ext"
    and "toLower ext = ''smd''"
  shows "outFilename_of path = base @ ''.bin''"
proof -
  have "length (toLower ext) = 3" using assms(3) by simp
  then have len: "length ext = 3" by (simp add: toLower_def)
  have "QFileInfo_suffix path = ext" using assms(1,2) by (rule QFileInfo_suffix_ext)
  then show ?thesis using assms(1,3) len
    by (simp add: outFilename_of_def QString_replace_def)
qed

lemma outFilename_of_other:
  assumes "QFileInfo_fileName path = base @ ''.'' @ ext" and "CHR ''.'' \<notin> set ext"
    and "toLower ext \<noteq> ''smd''"
  shows "outFilename_of path = QFileInfo_fileName path @ ''.bin''"
proof -
  have "QFileInfo_suffix path = ext" using assms(1,2) by (rule QFileInfo_suffix_ext)
  then show ?thesis using assms(3) by (simp add: outFilename_of_def)
qed

lemma outFilename_of_no_dot:
  assumes "CHR ''.'' \<notin> set (QFileInfo_fileName path)"
  shows "outFilename_of path = QFileInfo_fileName path @ ''.bin''"
  using QFileInfo_suffix_none [OF assms] by (simp add: outFilename_of_def toLower_def)

text \<open>
  Claim C8. For an input path made of a directory part and a file name: when the file
  name ends in a dot and an extension that is "smd" in any mix of cases, the output path
  is the output directory, a slash, and the file name with that extension replaced by
  "bin"; with any other extension, and with none, it is the output directory, a slash,
  and the whole file name followed by ".bin".
\<close>

theorem outFileFullPath_rule:
  assumes "dir = [] \<or> last dir = CHR ''/''" and "CHR ''/'' \<notin> set name"
  shows "(\<forall>base ext. name = base @ ''.'' @ ext \<and> CHR ''.'' \<notin> set ext \<longrightarrow>
            outFileFullPath_of outdir (dir @ name) =
              outdir @ ''/'' @
                (if ext \<in> {''smd'', ''smD'', ''sMd'', ''sMD'', ''Smd'', ''SmD'', ''SMd'', ''SMD''}
                 then base @ ''.bin'' else name @ ''.bin'')) \<and>
         (CHR ''.'' \<notin> set name \<longrightarrow>
            outFileFullPath_of outdir (dir @ name) = outdir @ ''/'' @ name @ ''.bin'')"
proof -
  have fn: "QFileInfo_fileName (dir @ name) = name"
    using assms by (rule QFileInfo_fileName_dir)
  have "outFilename_of (dir @ name) =
          (if ext \<in> {''smd'', ''smD'', ''sMd'', ''sMD'', ''Smd'', ''SmD'', ''SMd'', ''SMD''}
           then base @ ''.bin'' else name @ ''.bin'')"
    if "name = base @ ''.'' @ ext" and "CHR ''.'' \<notin> set ext" for base ext
  proof (cases "toLower ext = ''smd''")
    case True
    have "outFilename_of (dir @ name) = base @ ''.bin''"
      using fn that True by (intro outFilename_of_smd [where ext = ext]) simp_all
    moreover have
      "ext \<in> {''smd'', ''smD'', ''sMd'', ''sMD'', ''Smd'', ''SmD'', ''SMd'', ''SMD''}"
      using True toLower_smd [of ext] by blast
    ultimately show ?thesis by (simp only: if_True)
  next
    case False
    have "outFilename_of (dir @ name) = QFileInfo_fileName (dir @ name) @ ''.bin''"
      using fn that False by (intro outFilename_of_other [where ext = ext and base = base]) simp_all
    moreover have
      "ext \<notin> {''smd'', ''smD'', ''sMd'', ''sMD'', ''Smd'', ''SmD'', ''SMd'', ''SMD''}"
      using False toLower_smd [of ext] by blast
    ultimately show ?thesis by (simp only: if_False fn)
  qed
  moreover have "outFilename_of (dir @ name) = name @ ''.bin''" if "CHR ''.'' \<notin> set name"
    using outFilename_of_no_dot [of "dir @ name"] that fn by simp
  ultimately show ?thesis by (simp add: outFileFullPath_of_def)
qed

theorem outFileFullPath_rule_witness:
  "(''roms/'' = [] \<or> last ''roms/'' = CHR ''/'') \<and> CHR ''/'' \<notin> set ''game.smd'' \<and>
   ''game.smd'' = ''game'' @ ''.'' @ ''smd'' \<and> CHR ''.'' \<notin> set ''smd'' \<and>
   outFileFullPath_of ''out'' (''roms/'' @ ''game.smd'') = ''out/game.bin'' \<and>
   CHR ''/'' \<notin> set ''game.dat'' \<and>
   ''game.dat'' = ''game'' @ ''.'' @ ''dat'' \<and> CHR ''.'' \<notin> set ''dat'' \<and>
   outFileFullPath_of ''out'' (''roms/'' @ ''game.dat'') = ''out/game.dat.bin'' \<and>
   CHR ''/'' \<notin> set ''game'' \<and> CHR ''.'' \<notin> set ''game'' \<and>
   outFileFullPath_of ''out'' (''roms/'' @ ''game'') = ''out/game.bin''"
proof -
  have d: "''roms/'' = [] \<or> last ''roms/'' = CHR ''/''" by simp
  have n1: "CHR ''/'' \<notin> set ''game.smd''" and n2: "CHR ''/'' \<notin> set ''game.dat''"
    and n3: "CHR ''/'' \<notin> set ''game''" by simp_all
  have "outFileFullPath_of ''out'' (''roms/'' @ ''game.smd'') = ''out/game.bin''"
    using outFileFullPath_rule [OF d n1, of "''out''", THEN conjunct1, rule_format,
        of "''game''" "''smd''"] by simp
  moreover have "outFileFullPath_of ''out'' (''roms/'' @ ''game.dat'') = ''out/game.dat.bin''"
    using outFileFullPath_rule [OF d n2, of "''out''", THEN conjunct1, rule_format,
        of "''game''" "''dat''"] by simp
  moreover have "outFileFullPath_of ''out'' (''roms/'' @ ''game'') = ''out/game.bin''"
    using outFileFullPath_rule [OF d n3, of "''out''", THEN conjunct2] by simp
  ultimately show ?thesis by simp
qed

lemma split_at_last:
  "\<exists>pre post. xs = pre @ post \<and> (pre = [] \<or> last pre = c) \<and> c \<notin> set post"
proof -
  let ?P = "\<lambda>x. x \<noteq> c"
  let ?pre = "rev (dropWhile ?P (rev xs))" and ?post = "rev (takeWhile ?P (rev xs))"
  have "rev xs = takeWhile ?P (rev xs) @ dropWhile ?P (rev xs)" by simp
  then have "xs = ?pre @ ?post" by (metis rev_append rev_rev_ident)
  moreover have "?pre = [] \<or> last ?pre = c"
  proof (cases "dropWhile ?P (rev xs) = []")
    case True
    then show ?thesis by simp
  next
    case False
    then have "\<not> ?P (hd (dropWhile ?P (rev xs)))" by (rule hd_dropWhile)
    then show ?thesis using False by (simp add: last_rev)
  qed
  moreover have "c \<notin> set ?post" by (auto dest: set_takeWhileD)
  ultimately show ?thesis by blast
qed

text \<open>
  Every path is a directory part, empty or ending in a slash, and a file name without a
  slash; every file name has no dot, or is a base, a dot and an extension without a dot.
\<close>

lemma path_cases:
  "\<exists>dir name. path = dir @ name \<and> (dir = [] \<or> last dir = CHR ''/'') \<and> CHR ''/'' \<notin> set name"
  by (rule split_at_last)

lemma name_cases:
  "CHR ''.'' \<notin> set name \<or> (\<exists>base ext. name = base @ ''.'' @ ext \<and> CHR ''.'' \<notin> set ext)"
proof (cases "CHR ''.'' \<in> set name")
  case True
  obtain pre post where s: "name = pre @ post" "pre = [] \<or> last pre = CHR ''.''"
    "CHR ''.'' \<notin> set post"
    using split_at_last [of name "CHR ''.''"] by blast
  with True have "pre \<noteq> []" by auto
  with s(2) have "pre = butlast pre @ ''.''" by (metis append_butlast_last_id)
  with s(1) have "name = butlast pre @ ''.'' @ post" by (metis append.assoc)
  with s(3) show ?thesis by blast
next
  case False
  then show ?thesis by simp
qed

lemma fileName_no_slash: "CHR ''/'' \<notin> set (QFileInfo_fileName path)"
proof
  assume "CHR ''/'' \<in> set (QFileInfo_fileName path)"
  then have "CHR ''/'' \<in> set (takeWhile (\<lambda>c. c \<noteq> CHR ''/'') (rev path))"
    by (simp add: QFileInfo_fileName_def)
  then show False by (auto dest: set_takeWhileD)
qed

lemma suffix_is_end:
  "\<exists>pre. QFileInfo_fileName path = pre @ QFileInfo_suffix path"
proof (cases "CHR ''.'' \<in> set (QFileInfo_fileName path)")
  case True
  let ?fn = "QFileInfo_fileName path"
  have "rev ?fn = takeWhile (\<lambda>c. c \<noteq> CHR ''.'') (rev ?fn) @ dropWhile (\<lambda>c. c \<noteq> CHR ''.'') (rev ?fn)"
    by simp
  then have "?fn = rev (dropWhile (\<lambda>c. c \<noteq> CHR ''.'') (rev ?fn))
                   @ rev (takeWhile (\<lambda>c. c \<noteq> CHR ''.'') (rev ?fn))"
    by (metis rev_append rev_rev_ident)
  then show ?thesis using True by (auto simp add: QFileInfo_suffix_def Let_def)
next
  case False
  then show ?thesis by (simp add: QFileInfo_suffix_def)
qed

lemma outFilename_of_differs: "outFilename_of path \<noteq> QFileInfo_fileName path"
proof (cases "toLower (QFileInfo_suffix path) = ''smd''")
  case True
  then have "length (toLower (QFileInfo_suffix path)) = 3" by simp
  then have len: "length (QFileInfo_suffix path) = 3" by (simp add: toLower_def)
  obtain pre where fn: "QFileInfo_fileName path = pre @ QFileInfo_suffix path"
    using suffix_is_end by blast
  have out: "outFilename_of path = pre @ ''bin''"
    using True len fn by (simp add: outFilename_of_def QString_replace_def)
  show ?thesis
  proof
    assume "outFilename_of path = QFileInfo_fileName path"
    then have "QFileInfo_suffix path = ''bin''" using out fn by simp
    with True show False by (simp add: toLower_def toLower_char_def)
  qed
next
  case False
  then show ?thesis by (simp add: outFilename_of_def)
qed

lemma outFilename_of_no_slash: "CHR ''/'' \<notin> set (outFilename_of path)"
proof -
  have "set (outFilename_of path) \<subseteq> set (QFileInfo_fileName path) \<union> set ''.bin''"
    by (auto simp add: outFilename_of_def QString_replace_def Let_def
        dest: in_set_takeD in_set_dropD)
  then show ?thesis using fileName_no_slash [of path] by auto
qed

text \<open>
  The output path is never the input path, so the file read and the file written are two
  files of the world.
\<close>

lemma outFileFullPath_of_differs: "outFileFullPath_of outdir filename \<noteq> filename"
proof
  assume eq: "outFileFullPath_of outdir filename = filename"
  have "QFileInfo_fileName ((outdir @ ''/'') @ outFilename_of filename) = outFilename_of filename"
    by (rule QFileInfo_fileName_dir) (simp_all add: outFilename_of_no_slash)
  then have "QFileInfo_fileName filename = outFilename_of filename"
    using eq by (simp add: outFileFullPath_of_def)
  then show False using outFilename_of_differs [of filename] by simp
qed

section \<open>Properties of the Format Checker\<close>

lemma opened_append [simp]: "opened (xs @ ys) = opened xs @ opened ys"
  by (induction xs rule: opened.induct) simp_all

lemma files_print [simp]: "files (print s l w) = files w"
  and readable_print [simp]: "readable (print s l w) = readable w"
  and writable_print [simp]: "writable (print s l w) = writable w"
  and space_print [simp]: "space (print s l w) = space w"
  by (simp_all add: print_def)

lemma fopen_r_world:
  "snd (fopen_r path w) = w\<lparr>trace := trace w @ [Fopen path ''r'']\<rparr>"
  by (simp add: fopen_r_def Let_def split: option.split)

lemma fopen_r_result:
  "fst (fopen_r path w) =
     (case files w path of
        None \<Rightarrow> Inl ENOENT
      | Some d \<Rightarrow> if readable w path then Inr \<lparr>data = d, pos = 0\<rparr> else Inl EACCES)"
  by (simp add: fopen_r_def Let_def split: option.split)

lemma fread_count:
  "fst (snd (fread buf n f)) = min n (length (data f) - pos f)"
  by (simp add: fread_def Let_def)

lemma fread_header:
  assumes "512 \<le> length d"
  shows "fread buf 512 \<lparr>data = d, pos = 0\<rparr> =
           (take 512 d @ drop 512 buf, 512, \<lparr>data = d, pos = 512\<rparr>)"
  using assms by (simp add: fread_def Let_def min_def)

lemma header_bytes:
  assumes "512 \<le> length d"
  shows "(0 = memcmp (drop 0x100 (take 512 d @ r)) (bytes_of ''SEGA'') 4) =
           (take 4 (drop 0x100 d) = [0x53, 0x45, 0x47, 0x41])"
    and "(take 512 d @ r) ! 8 = d ! 8" and "(take 512 d @ r) ! 9 = d ! 9"
proof -
  have "(0 = memcmp (drop 0x100 (take 512 d @ r)) (bytes_of ''SEGA'') 4) =
        (take 4 (drop 0x100 (take 512 d @ r)) = take 4 (bytes_of ''SEGA''))"
    using assms by (intro memcmp_eq_take) (simp_all add: bytes_of_def)
  also have "take 4 (bytes_of ''SEGA'') = [0x53, 0x45, 0x47, 0x41]"
    by (simp add: bytes_of_def)
  also have "take 4 (drop 0x100 (take 512 d @ r)) = take 4 (drop 0x100 d)"
  proof -
    have "drop 0x100 (take 512 d @ r) = take 0x100 (drop 0x100 d) @ r"
      using assms by (simp add: drop_take)
    moreover have "4 \<le> length (take 0x100 (drop 0x100 d))" using assms by simp
    ultimately show ?thesis by simp
  qed
  finally show "(0 = memcmp (drop 0x100 (take 512 d @ r)) (bytes_of ''SEGA'') 4) =
           (take 4 (drop 0x100 d) = [0x53, 0x45, 0x47, 0x41])" .
  show "(take 512 d @ r) ! 8 = d ! 8" "(take 512 d @ r) ! 9 = d ! 9"
    using assms by (simp_all add: nth_append)
qed

lemma header_bytes_nf:
  assumes "512 \<le> length d"
  shows "(memcmp (drop 256 (take 512 d) @ r) (bytes_of ''SEGA'') 4 = 0) =
           (take 4 (drop 256 d) = [83, 69, 71, 65])"
proof -
  have "drop 0x100 (take 512 d @ r) = drop 256 (take 512 d) @ r"
    using assms by simp
  then show ?thesis using header_bytes(1) [OF assms, of r] by (simp only: eq_commute [of 0])
qed

lemma fread_start:
  "fread buf n \<lparr>data = d, pos = 0\<rparr> =
     (take n d @ drop (min n (length d)) buf, min n (length d),
      \<lparr>data = d, pos = min n (length d)\<rparr>)"
  by (simp add: fread_def Let_def min.commute)

lemma checkFormats_BIN_retval:
  "fst (checkFormats_BIN f rv tmp w) = (rv \<and> file_passes BIN w f)"
proof (cases "files w f")
  case None
  then show ?thesis
    by (simp add: checkFormats_BIN_def fopen_r_def file_passes_def Let_def)
next
  case (Some d)
  show ?thesis
  proof (cases "readable w f")
    case False
    with Some show ?thesis
      by (simp add: checkFormats_BIN_def fopen_r_def file_passes_def Let_def)
  next
    case True
    show ?thesis
    proof (cases "512 \<le> length d")
      case False
      with Some True show ?thesis
        by (simp add: checkFormats_BIN_def fopen_r_def file_passes_def Let_def
            NUM_HEADER_BYTES_def fread_start)
    next
      case len: True
      with Some True show ?thesis
        by (simp add: checkFormats_BIN_def fopen_r_def file_passes_def Let_def
            NUM_HEADER_BYTES_def fread_header header_bytes header_bytes_nf)
    qed
  qed
qed

lemma checkFormats_BIN_world:
  "files (snd (snd (checkFormats_BIN f rv tmp w))) = files w \<and>
   readable (snd (snd (checkFormats_BIN f rv tmp w))) = readable w \<and>
   opened (trace (snd (snd (checkFormats_BIN f rv tmp w)))) = opened (trace w) @ [f]"
  by (simp add: checkFormats_BIN_def fopen_r_def Let_def fread_start split: option.split)

lemma checkFormats_SMD_retval:
  "fst (checkFormats_SMD f rv tmp w) = (rv \<and> file_passes SMD w f)"
proof (cases "files w f")
  case None
  then show ?thesis
    by (simp add: checkFormats_SMD_def fopen_r_def file_passes_def Let_def)
next
  case (Some d)
  show ?thesis
  proof (cases "readable w f")
    case False
    with Some show ?thesis
      by (simp add: checkFormats_SMD_def fopen_r_def file_passes_def Let_def)
  next
    case True
    show ?thesis
    proof (cases "512 \<le> length d")
      case False
      with Some True show ?thesis
        by (simp add: checkFormats_SMD_def fopen_r_def file_passes_def Let_def
            NUM_HEADER_BYTES_def fread_start)
    next
      case len: True
      with Some True show ?thesis
        by (auto simp add: checkFormats_SMD_def fopen_r_def file_passes_def Let_def
            NUM_HEADER_BYTES_def fread_header header_bytes header_bytes_nf)
    qed
  qed
qed

lemma checkFormats_SMD_world:
  "files (snd (snd (checkFormats_SMD f rv tmp w))) = files w \<and>
   readable (snd (snd (checkFormats_SMD f rv tmp w))) = readable w \<and>
   opened (trace (snd (snd (checkFormats_SMD f rv tmp w)))) = opened (trace w) @ [f]"
  by (simp add: checkFormats_SMD_def fopen_r_def Let_def fread_start split: option.split)

lemma file_passes_cong:
  "files w' = files w \<Longrightarrow> readable w' = readable w \<Longrightarrow> file_passes fmt w' f = file_passes fmt w f"
  by (simp add: file_passes_def split: option.split)

lemma checkFormats_loop_checks:
  assumes "fmt = BIN \<or> fmt = SMD"
  shows "fst (checkFormats_loop fmt fs rv tmp w) = (rv \<and> (\<forall>f\<in>set fs. file_passes fmt w f)) \<and>
         opened (trace (snd (checkFormats_loop fmt fs rv tmp w))) = opened (trace w) @ fs"
proof (induction fs arbitrary: rv tmp w)
  case Nil
  then show ?case by simp
next
  case (Cons f fs)
  define step where "step = (if fmt = BIN then checkFormats_BIN f rv tmp w
                             else checkFormats_SMD f rv tmp w)"
  obtain rv' tmp' w' where st: "step = (rv', tmp', w')"
    by (cases step) auto
  have rv': "rv' = (rv \<and> file_passes fmt w f)"
    using assms checkFormats_BIN_retval [of f rv tmp w] checkFormats_SMD_retval [of f rv tmp w] st
    by (auto simp add: step_def)
  have w': "files w' = files w" "readable w' = readable w"
    "opened (trace w') = opened (trace w) @ [f]"
    using assms checkFormats_BIN_world [of f rv tmp w] checkFormats_SMD_world [of f rv tmp w] st
    by (auto simp add: step_def)
  have p: "file_passes fmt w' g = file_passes fmt w g" for g
    by (rule file_passes_cong) (fact w')+
  have unfold: "checkFormats_loop fmt (f # fs) rv tmp w = checkFormats_loop fmt fs rv' tmp' w'"
    using assms st by (auto simp add: step_def)
  have "fst (checkFormats_loop fmt fs rv' tmp' w') =
          (rv' \<and> (\<forall>g\<in>set fs. file_passes fmt w g))"
    using Cons.IH [of rv' tmp' w'] by (simp only: p)
  moreover have "opened (trace (snd (checkFormats_loop fmt fs rv' tmp' w'))) =
          opened (trace w') @ fs"
    using Cons.IH [of rv' tmp' w'] by simp
  ultimately show ?case unfolding unfold using rv' w'(3) by auto
qed

lemma checkFormats_loop_unknown:
  "checkFormats_loop UNK_FMT (f # fs) rv tmp w =
     (False, print Cerr ''NGROM ERROR: checkFormats not implemented for specified fmt: 0'' w)"
  by simp



text \<open>
  Claim C10. Called with the expected format unknown and a list that is not empty,
  \<^verbatim>\<open>checkFormats\<close> returns false having only printed its error line: it opens no file.
  With BIN or SMD expected it opens every file of the list.
\<close>

theorem checkFormats_unknown_returns_at_once:
  assumes "filenameList \<noteq> []"
  shows "checkFormats UNK_FMT filenameList w =
           (False,
            print Cerr ''NGROM ERROR: checkFormats not implemented for specified fmt: 0'' w) \<and>
         opened (trace (snd (checkFormats UNK_FMT filenameList w))) = opened (trace w) \<and>
         (\<forall>fmt. fmt = BIN \<or> fmt = SMD \<longrightarrow>
            opened (trace (snd (checkFormats fmt filenameList w))) =
              opened (trace w) @ filenameList)"
proof -
  obtain f fs where "filenameList = f # fs" using assms by (cases filenameList) auto
  then have "checkFormats UNK_FMT filenameList w =
      (False, print Cerr ''NGROM ERROR: checkFormats not implemented for specified fmt: 0'' w)"
    by (simp add: checkFormats_def)
  moreover have "opened (trace (snd (checkFormats fmt filenameList w))) =
      opened (trace w) @ filenameList" if "fmt = BIN \<or> fmt = SMD" for fmt
    using checkFormats_loop_checks [OF that, of filenameList True _ w]
    by (simp add: checkFormats_def)
  ultimately show ?thesis by simp
qed






theorem checkFormats_unknown_returns_at_once_witness:
  "[''missing.smd'', ''good.smd''] \<noteq> [] \<and>
   checkFormats UNK_FMT [''missing.smd'', ''good.smd''] rom_world =
     (False,
      print Cerr ''NGROM ERROR: checkFormats not implemented for specified fmt: 0'' rom_world) \<and>
   opened (trace (snd (checkFormats UNK_FMT [''missing.smd'', ''good.smd''] rom_world))) = [] \<and>
   (BIN = BIN \<or> BIN = SMD) \<and>
   opened (trace (snd (checkFormats BIN [''missing.smd'', ''good.smd''] rom_world))) =
     [''missing.smd'', ''good.smd'']"
proof -
  have ne: "[''missing.smd'', ''good.smd''] \<noteq> []" by simp
  note W = checkFormats_unknown_returns_at_once [OF ne, of rom_world]
  have t: "trace rom_world = []" by (simp add: rom_world_def)
  from W have "checkFormats UNK_FMT [''missing.smd'', ''good.smd''] rom_world =
     (False,
      print Cerr ''NGROM ERROR: checkFormats not implemented for specified fmt: 0'' rom_world)"
    by (rule conjunct1)
  moreover from W have
    "opened (trace (snd (checkFormats UNK_FMT [''missing.smd'', ''good.smd''] rom_world))) = []"
    by (simp add: t)
  moreover have
    "opened (trace (snd (checkFormats BIN [''missing.smd'', ''good.smd''] rom_world))) =
       [''missing.smd'', ''good.smd'']"
    using W [THEN conjunct2, THEN conjunct2, rule_format, of BIN] by (simp add: t)
  ultimately show ?thesis by simp
qed

section \<open>Properties of the Converter\<close>

lemma convertBody_too_small:
  assumes "QFileInfo_size w filename < 16896"
  shows "convertBody filename outPath w =
           (False,
            print Cerr (''  NGROM ERROR: Input file is too small (only ''
                        @ show_nat (QFileInfo_size w filename) @ '' bytes)'') w)"
  using assms by (simp add: convertBody_def NUM_HEADER_BYTES_def NUM_SMD_BLOCK_BYTES_def Let_def)

lemma convertBody_misaligned:
  assumes "16896 \<le> QFileInfo_size w filename"
    and "(QFileInfo_size w filename - 512) mod 16384 \<noteq> 0"
  shows "convertBody filename outPath w =
           (False,
            print Cerr ''  NGROM ERROR: Input file does not end on 16KB block boundary (possible data corruption).'' w)"
  using assms by (simp add: convertBody_def NUM_HEADER_BYTES_def NUM_SMD_BLOCK_BYTES_def Let_def)

lemma convertBody_bad_size:
  assumes "QFileInfo_size w filename < 16896 \<or> (QFileInfo_size w filename - 512) mod 16384 \<noteq> 0"
  shows "\<exists>msg. convertBody filename outPath w = (False, print Cerr msg w)"
proof (cases "QFileInfo_size w filename < 16896")
  case True
  then show ?thesis using convertBody_too_small by blast
next
  case False
  with assms have "16896 \<le> QFileInfo_size w filename"
    "(QFileInfo_size w filename - 512) mod 16384 \<noteq> 0" by simp_all
  then show ?thesis using convertBody_misaligned by blast
qed

lemma QFileInfo_exists_print [simp]:
  "QFileInfo_exists (print s l w) path = QFileInfo_exists w path"
  by (simp add: QFileInfo_exists_def)

lemma QFileInfo_size_print [simp]:
  "QFileInfo_size (print s l w) path = QFileInfo_size w path"
  by (simp add: QFileInfo_size_def)

lemma convertFiles_stop:
  assumes "QFileInfo_exists w (outFileFullPath_of outdir filename)"
  shows "convertFiles (filename # rest) outdir STOP w =
           (False,
            print Cerr ''  NGROM WARNING: Output file already exists!''
              (print Cout (''        to '' @ outFileFullPath_of outdir filename)
                 (print Cout (''Converting '' @ filename) w)))"
  using assms by (simp add: Let_def)

lemma convertFiles_skip:
  assumes "QFileInfo_exists w (outFileFullPath_of outdir filename)"
  shows "convertFiles (filename # rest) outdir SKIP w =
           convertFiles rest outdir SKIP
             (print Cout ''  ...skipping!''
                (print Cerr ''  NGROM WARNING: Output file already exists!''
                   (print Cout (''        to '' @ outFileFullPath_of outdir filename)
                      (print Cout (''Converting '' @ filename) w))))"
  using assms by (simp add: Let_def)

lemma convertFiles_overwrite:
  assumes "QFileInfo_exists w (outFileFullPath_of outdir filename)"
    and "act \<noteq> STOP" and "act \<noteq> SKIP"
  shows "convertFiles (filename # rest) outdir act w =
           (case convertBody filename (outFileFullPath_of outdir filename)
                   (print Cerr ''  NGROM WARNING: Output file already exists!''
                      (print Cout (''        to '' @ outFileFullPath_of outdir filename)
                         (print Cout (''Converting '' @ filename) w))) of
              (ok, w') \<Rightarrow> if ok then convertFiles rest outdir act w' else (False, w'))"
  using assms by (simp add: Let_def)

lemma convertFiles_fresh:
  assumes "\<not> QFileInfo_exists w (outFileFullPath_of outdir filename)"
  shows "convertFiles (filename # rest) outdir act w =
           (case convertBody filename (outFileFullPath_of outdir filename)
                   (print Cout (''        to '' @ outFileFullPath_of outdir filename)
                      (print Cout (''Converting '' @ filename) w)) of
              (ok, w') \<Rightarrow> if ok then convertFiles rest outdir act w' else (False, w'))"
  using assms by (simp add: Let_def)


lemma out_paths:
  "outFileFullPath_of ''out'' ''tiny.smd'' = ''out/tiny.bin''"
  "outFileFullPath_of ''out'' ''good.smd'' = ''out/good.bin''"
  "outFileFullPath_of ''out'' ''trunc.smd'' = ''out/trunc.bin''"
  "outFileFullPath_of ''out'' ''extra.smd'' = ''out/extra.bin''"
  by (simp_all add: outFileFullPath_of_def outFilename_of_def QFileInfo_fileName_def
      QFileInfo_suffix_def toLower_def toLower_char_def QString_replace_def Let_def)

lemma fwrite_block:
  assumes "length buf = 16384" and "16384 \<le> space w"
  shows "fwrite buf 16384 path w =
           (16384, w\<lparr>files := (files w)(path \<mapsto> (case files w path of None \<Rightarrow> [] | Some d \<Rightarrow> d) @ buf),
                      space := space w - 16384\<rparr>)"
  using assms by (simp add: fwrite_def Let_def min_def)

lemma fread_block:
  assumes "p + 16384 \<le> length d"
  shows "fread (replicate 16384 0) 16384 \<lparr>data = d, pos = p\<rparr> =
           (take 16384 (drop p d), 16384, \<lparr>data = d, pos = p + 16384\<rparr>)"
  using assms by (auto simp add: fread_def Let_def min_def)

lemma memset_block [simp]: "memset (replicate n 0) 0 n = replicate n 0"
  by (simp add: memset_def)

lemma decoded_blocks_step:
  "i < n \<Longrightarrow> decoded_blocks d i n =
     decodeSMDBlock (replicate 16384 0) (take 16384 (drop (512 + i * 16384) d))
       @ decoded_blocks d (Suc i) n"
  by (simp add: decoded_blocks_def upt_conv_Cons)

lemma decoded_blocks_done [simp]: "decoded_blocks d n n = []"
  by (simp add: decoded_blocks_def)

lemma decoded_blocks_length: "length (decoded_blocks d i n) = (n - i) * 16384"
proof (induction "n - i" arbitrary: i)
  case 0
  then show ?case by (simp add: decoded_blocks_def)
next
  case (Suc k)
  then have "i < n" "k = n - Suc i" by simp_all
  then show ?case using Suc.hyps(1) [of "Suc i"] Suc.hyps(2)
    by (simp add: decoded_blocks_step decodeSMDBlock_length)
qed

lemma convertBlocks_ok:
  assumes "length d = 512 + n * 16384" and "i \<le> n" and "(n - i) * 16384 \<le> space w"
    and "files w path = Some old"
  shows "convertBlocks i n \<lparr>data = d, pos = 512 + i * 16384\<rparr> path w =
           (True, w\<lparr>files := (files w)(path \<mapsto> old @ decoded_blocks d i n),
                     space := space w - (n - i) * 16384\<rparr>)"
  using assms
proof (induction "n - i" arbitrary: i w old)
  case 0
  then have "i = n" by simp
  then show ?case using 0
    by (subst convertBlocks.simps) (simp add: fun_upd_idem)
next
  case (Suc k)
  then have lt: "i < n" and k: "k = n - Suc i" by simp_all
  let ?blk = "take 16384 (drop (512 + i * 16384) d)"
  let ?bin = "decodeSMDBlock (replicate 16384 0) ?blk"
  let ?w = "w\<lparr>files := (files w)(path \<mapsto> old @ ?bin), space := space w - 16384\<rparr>"
  have room: "16384 \<le> space w" using Suc.prems(3) lt
    by (metis Suc.hyps(2) le_add1 le_trans mult_Suc plus_1_eq_Suc)
  have "(512 + i * 16384) + 16384 \<le> length d"
  proof -
    have "Suc i \<le> n" using lt by simp
    then have "Suc i * 16384 \<le> n * 16384" by (rule mult_le_mono1)
    then show ?thesis using Suc.prems(1) by simp
  qed
  then have rd: "fread (replicate 16384 0) 16384 \<lparr>data = d, pos = 512 + i * 16384\<rparr> =
      (?blk, 16384, \<lparr>data = d, pos = 512 + Suc i * 16384\<rparr>)"
    by (simp add: fread_block)
  have wr: "fwrite ?bin 16384 path w = (16384, ?w)"
    using room Suc.prems(4) by (simp add: fwrite_block decodeSMDBlock_length)
  have step: "convertBlocks i n \<lparr>data = d, pos = 512 + i * 16384\<rparr> path w =
      convertBlocks (Suc i) n \<lparr>data = d, pos = 512 + Suc i * 16384\<rparr> path ?w"
    using lt by (subst convertBlocks.simps) (simp add: NUM_SMD_BLOCK_BYTES_def rd wr Let_def)
  have "(n - Suc i) * 16384 \<le> space ?w"
  proof -
    have "(n - i) * 16384 = (n - Suc i) * 16384 + 16384" using lt
      by (metis Suc.hyps(2) k mult_Suc add.commute)
    then show ?thesis using Suc.prems(3) by simp
  qed
  then have "convertBlocks (Suc i) n \<lparr>data = d, pos = 512 + Suc i * 16384\<rparr> path ?w =
      (True, ?w\<lparr>files := (files ?w)(path \<mapsto> (old @ ?bin) @ decoded_blocks d (Suc i) n),
                 space := space ?w - (n - Suc i) * 16384\<rparr>)"
    using Suc.hyps(1) [of "Suc i" ?w "old @ ?bin"] k Suc.prems(1) lt by simp
  moreover have "space w - 16384 - (n - Suc i) * 16384 = space w - (n - i) * 16384"
    using lt by (metis Suc.hyps(2) k diff_diff_left mult_Suc)
  ultimately show ?case unfolding step using lt
    by (simp add: decoded_blocks_step)
qed


lemma convertBody_converts:
  assumes "files w filename = Some d" and "readable w filename" and "writable w outPath"
    and "length d = 512 + n * 16384" and "0 < n" and "n * 16384 \<le> space w"
  shows "convertBody filename outPath w =
           (True,
            print Cout ''  Conversion complete!''
              (w\<lparr>files := (files w)(outPath \<mapsto> decoded_blocks d 0 n),
                  space := space w - n * 16384,
                  trace := trace w @ [Fopen filename ''r'', Fopen outPath ''w'']\<rparr>))"
proof -
  have size: "QFileInfo_size w filename = 512 + n * 16384"
    using assms(1,4) by (simp add: QFileInfo_size_def)
  have big: "\<not> 512 + n * 16384 < 16896" using assms(5) by simp
  let ?w1 = "w\<lparr>trace := trace w @ [Fopen filename ''r'']\<rparr>"
  let ?w2 = "?w1\<lparr>trace := trace ?w1 @ [Fopen outPath ''w'']\<rparr>"
  let ?w3 = "?w2\<lparr>files := (files ?w2)(outPath \<mapsto> [])\<rparr>"
  have o1: "fopen_r filename w = (Inr \<lparr>data = d, pos = 0\<rparr>, ?w1)"
    using assms(1,2) by (simp add: fopen_r_def Let_def)
  have o2: "fopen_w outPath ?w1 = (Inr outPath, ?w3)"
    using assms(3) by (simp add: fopen_w_def Let_def)
  have "convertBlocks 0 n \<lparr>data = d, pos = 512 + 0 * 16384\<rparr> outPath ?w3 =
          (True, ?w3\<lparr>files := (files ?w3)(outPath \<mapsto> [] @ decoded_blocks d 0 n),
                      space := space ?w3 - (n - 0) * 16384\<rparr>)"
    using assms(4,6) by (intro convertBlocks_ok) simp_all
  then have blocks: "convertBlocks 0 n \<lparr>data = d, pos = 512\<rparr> outPath ?w3 =
          (True, ?w3\<lparr>files := (files ?w3)(outPath \<mapsto> decoded_blocks d 0 n),
                      space := space ?w3 - n * 16384\<rparr>)"
    by simp
  show ?thesis
    unfolding convertBody_def size
    using big
    by (simp add: NUM_HEADER_BYTES_def NUM_SMD_BLOCK_BYTES_def Let_def o1 o2 fseek_set_def
        blocks [simplified] print_def)
qed


text \<open>
  Claim C5, as the code has it. When the Converter comes to a file whose size is below
  16896 bytes, or whose size less 512 is not a multiple of 16384, then, unless the output
  path exists and the collision policy is Skip, \<^verbatim>\<open>convertFiles\<close> returns false and the
  rest of the list is left alone: the result is that of the list cut after this file, no
  file is changed and none is opened.
\<close>

theorem convertFiles_rejects_bad_size:
  assumes "QFileInfo_size w filename < 16896 \<or> (QFileInfo_size w filename - 512) mod 16384 \<noteq> 0"
    and "\<not> (QFileInfo_exists w (outFileFullPath_of outdir filename) \<and> fileCollisionAction = SKIP)"
  shows "fst (convertFiles (filename # rest) outdir fileCollisionAction w) = False \<and>
         convertFiles (filename # rest) outdir fileCollisionAction w =
           convertFiles [filename] outdir fileCollisionAction w \<and>
         files (snd (convertFiles (filename # rest) outdir fileCollisionAction w)) = files w \<and>
         opened (trace (snd (convertFiles (filename # rest) outdir fileCollisionAction w))) =
           opened (trace w)"
proof -
  let ?out = "outFileFullPath_of outdir filename"
  let ?w2 = "print Cout (''        to '' @ ?out) (print Cout (''Converting '' @ filename) w)"
  let ?w3 = "print Cerr ''  NGROM WARNING: Output file already exists!'' ?w2"
  have bad: "QFileInfo_size v filename < 16896 \<or> (QFileInfo_size v filename - 512) mod 16384 \<noteq> 0"
    if "v = ?w2 \<or> v = ?w3" for v
    using assms(1) that by auto
  show ?thesis
  proof (cases "QFileInfo_exists w ?out")
    case False
    obtain msg where cb: "convertBody filename ?out ?w2 = (False, print Cerr msg ?w2)"
      using convertBody_bad_size [OF bad [of ?w2], of ?out] by blast
    have "convertFiles (filename # fs) outdir fileCollisionAction w =
            (False, print Cerr msg ?w2)" for fs
      by (simp only: convertFiles_fresh [OF False] cb prod.case if_False)
    then show ?thesis by simp
  next
    case True
    with assms(2) have ns: "fileCollisionAction \<noteq> SKIP" by simp
    show ?thesis
    proof (cases "fileCollisionAction = STOP")
      case True
      then show ?thesis using convertFiles_stop [OF \<open>QFileInfo_exists w ?out\<close>]
        by (simp del: convertFiles.simps)
    next
      case False
      obtain msg where cb: "convertBody filename ?out ?w3 = (False, print Cerr msg ?w3)"
        using convertBody_bad_size [OF bad [of ?w3], of ?out] by blast
      have "convertFiles (filename # fs) outdir fileCollisionAction w =
              (False, print Cerr msg ?w3)" for fs
        by (simp only: convertFiles_overwrite [OF True False ns] cb prod.case if_False)
      then show ?thesis by simp
    qed
  qed
qed


lemma rom_world_sizes:
  "QFileInfo_size rom_world ''tiny.smd'' = 500"
  "QFileInfo_size rom_world ''trunc.smd'' = 16895"
  "QFileInfo_size rom_world ''extra.smd'' = 16897"
  by (simp_all add: QFileInfo_size_def rom_world_def)

lemma rom_world_exists:
  "QFileInfo_exists rom_world ''out/tiny.bin''"
  "QFileInfo_exists rom_world ''out/good.bin''"
  "\<not> QFileInfo_exists rom_world ''out/trunc.bin''"
  "\<not> QFileInfo_exists rom_world ''out/extra.bin''"
  by (simp_all add: QFileInfo_exists_def rom_world_def)

theorem convertFiles_rejects_bad_size_witness:
  "(QFileInfo_size rom_world ''tiny.smd'' < 16896 \<or>
      (QFileInfo_size rom_world ''tiny.smd'' - 512) mod 16384 \<noteq> 0) \<and>
   \<not> (QFileInfo_exists rom_world (outFileFullPath_of ''out'' ''tiny.smd'') \<and> WARN = SKIP) \<and>
   fst (convertFiles [''tiny.smd'', ''good.smd''] ''out'' WARN rom_world) = False \<and>
   opened (trace (snd (convertFiles [''tiny.smd'', ''good.smd''] ''out'' WARN rom_world))) = [] \<and>
   (QFileInfo_size rom_world ''trunc.smd'' < 16896 \<or>
      (QFileInfo_size rom_world ''trunc.smd'' - 512) mod 16384 \<noteq> 0) \<and>
   \<not> (QFileInfo_exists rom_world (outFileFullPath_of ''out'' ''trunc.smd'') \<and> SKIP = SKIP) \<and>
   fst (convertFiles [''trunc.smd'', ''good.smd''] ''out'' SKIP rom_world) = False \<and>
   (QFileInfo_size rom_world ''extra.smd'' < 16896 \<or>
      (QFileInfo_size rom_world ''extra.smd'' - 512) mod 16384 \<noteq> 0) \<and>
   \<not> (QFileInfo_exists rom_world (outFileFullPath_of ''out'' ''extra.smd'') \<and> SKIP = SKIP) \<and>
   fst (convertFiles [''extra.smd'', ''good.smd''] ''out'' SKIP rom_world) = False"
proof -
  have t: "trace rom_world = []" by (simp add: rom_world_def)
  have s1: "QFileInfo_size rom_world ''tiny.smd'' < 16896 \<or>
      (QFileInfo_size rom_world ''tiny.smd'' - 512) mod 16384 \<noteq> 0"
    and s2: "QFileInfo_size rom_world ''trunc.smd'' < 16896 \<or>
      (QFileInfo_size rom_world ''trunc.smd'' - 512) mod 16384 \<noteq> 0"
    and s3: "QFileInfo_size rom_world ''extra.smd'' < 16896 \<or>
      (QFileInfo_size rom_world ''extra.smd'' - 512) mod 16384 \<noteq> 0"
    by (simp_all add: rom_world_sizes)
  have e1: "\<not> (QFileInfo_exists rom_world (outFileFullPath_of ''out'' ''tiny.smd'') \<and> WARN = SKIP)"
    and e2: "\<not> (QFileInfo_exists rom_world (outFileFullPath_of ''out'' ''trunc.smd'') \<and> SKIP = SKIP)"
    and e3: "\<not> (QFileInfo_exists rom_world (outFileFullPath_of ''out'' ''extra.smd'') \<and> SKIP = SKIP)"
    by (simp_all add: out_paths rom_world_exists)
  note r1 = convertFiles_rejects_bad_size [OF s1 e1, of "[''good.smd'']"]
  note r2 = convertFiles_rejects_bad_size [OF s2 e2, of "[''good.smd'']"]
  note r3 = convertFiles_rejects_bad_size [OF s3 e3, of "[''good.smd'']"]
  have "fst (convertFiles [''tiny.smd'', ''good.smd''] ''out'' WARN rom_world) = False"
    by (rule r1 [THEN conjunct1])
  moreover have
    "opened (trace (snd (convertFiles [''tiny.smd'', ''good.smd''] ''out'' WARN rom_world))) = []"
    using r1 [THEN conjunct2, THEN conjunct2, THEN conjunct2] by (simp only: t opened.simps)
  moreover have "fst (convertFiles [''trunc.smd'', ''good.smd''] ''out'' SKIP rom_world) = False"
    by (rule r2 [THEN conjunct1])
  moreover have "fst (convertFiles [''extra.smd'', ''good.smd''] ''out'' SKIP rom_world) = False"
    by (rule r3 [THEN conjunct1])
  ultimately show ?thesis using s1 s2 s3 e1 e2 e3 by (simp del: convertFiles.simps)
qed

text \<open>
  Claim C5 as stated fails where the collision check comes first: a 500-byte input whose
  output path exists is skipped under the policy Skip, and \<^verbatim>\<open>convertFiles\<close> returns true.
\<close>

theorem convertFiles_skips_small_file:
  "QFileInfo_size rom_world ''tiny.smd'' = 500 \<and>
   fst (convertFiles [''tiny.smd''] ''out'' SKIP rom_world) = True \<and>
   trace (snd (convertFiles [''tiny.smd''] ''out'' SKIP rom_world)) =
     [Print Cout ''Converting tiny.smd'',
      Print Cout ''        to out/tiny.bin'',
      Print Cerr ''  NGROM WARNING: Output file already exists!'',
      Print Cout ''  ...skipping!'']"
proof -
  have ex: "QFileInfo_exists rom_world (outFileFullPath_of ''out'' ''tiny.smd'')"
    by (simp add: out_paths rom_world_exists)
  have t: "trace rom_world = []" by (simp add: rom_world_def)
  show ?thesis
    by (simp add: convertFiles_skip [OF ex] out_paths rom_world_sizes t del: convertFiles.simps(2))
qed

text \<open>
  Claim C6. When the output path of the file at hand exists: under Stop the function
  returns false after the warning, with nothing else done; under Skip it goes on with the
  rest of the list, this file left alone; under Warn it goes on as for any file, through
  the size checks and the conversion, and where the input is a readable file of 512 bytes
  and \<open>n\<close> whole blocks, the output path is writable and the device has room, the old
  contents of the output file are replaced by the \<open>n\<close> decoded blocks before the rest of
  the list is processed.
\<close>

theorem convertFiles_collision_policy:
  assumes "QFileInfo_exists w (outFileFullPath_of outdir filename)"
  shows
    "(let outPath = outFileFullPath_of outdir filename;
          warned = print Cerr ''  NGROM WARNING: Output file already exists!''
                     (print Cout (''        to '' @ outPath)
                        (print Cout (''Converting '' @ filename) w))
      in convertFiles (filename # rest) outdir STOP w = (False, warned) \<and>
         convertFiles (filename # rest) outdir SKIP w =
           convertFiles rest outdir SKIP (print Cout ''  ...skipping!'' warned) \<and>
         convertFiles (filename # rest) outdir WARN w =
           (case convertBody filename outPath warned of
              (ok, w') \<Rightarrow> if ok then convertFiles rest outdir WARN w' else (False, w')) \<and>
         (\<forall>d n. files w filename = Some d \<and> readable w filename \<and> writable w outPath \<and>
                length d = 512 + n * 16384 \<and> 0 < n \<and> n * 16384 \<le> space w \<longrightarrow>
            convertFiles (filename # rest) outdir WARN w =
              convertFiles rest outdir WARN
                (print Cout ''  Conversion complete!''
                   (warned\<lparr>files := (files w)(outPath \<mapsto> decoded_blocks d 0 n),
                          space := space w - n * 16384,
                          trace := trace warned @ [Fopen filename ''r'', Fopen outPath ''w'']\<rparr>))))"
proof -
  let ?out = "outFileFullPath_of outdir filename"
  let ?warned = "print Cerr ''  NGROM WARNING: Output file already exists!''
                     (print Cout (''        to '' @ ?out)
                        (print Cout (''Converting '' @ filename) w))"
  have over: "convertFiles (filename # rest) outdir WARN w =
           (case convertBody filename ?out ?warned of
              (ok, w') \<Rightarrow> if ok then convertFiles rest outdir WARN w' else (False, w'))"
    by (rule convertFiles_overwrite [OF assms]) simp_all
  have conv: "convertFiles (filename # rest) outdir WARN w =
              convertFiles rest outdir WARN
                (print Cout ''  Conversion complete!''
                   (?warned\<lparr>files := (files w)(?out \<mapsto> decoded_blocks d 0 n),
                          space := space w - n * 16384,
                          trace := trace ?warned @ [Fopen filename ''r'', Fopen ?out ''w'']\<rparr>))"
    if "files w filename = Some d \<and> readable w filename \<and> writable w ?out \<and>
        length d = 512 + n * 16384 \<and> 0 < n \<and> n * 16384 \<le> space w" for d n
  proof -
    have "convertBody filename ?out ?warned =
           (True,
            print Cout ''  Conversion complete!''
              (?warned\<lparr>files := (files ?warned)(?out \<mapsto> decoded_blocks d 0 n),
                  space := space ?warned - n * 16384,
                  trace := trace ?warned @ [Fopen filename ''r'', Fopen ?out ''w'']\<rparr>))"
      using that by (intro convertBody_converts) simp_all
    then show ?thesis unfolding over by simp
  qed
  show ?thesis
    unfolding Let_def
    using convertFiles_stop [OF assms, of rest] convertFiles_skip [OF assms, of rest] over conv
    by blast
qed


theorem convertFiles_collision_policy_witness:
  "QFileInfo_exists rom_world (outFileFullPath_of ''out'' ''good.smd'') \<and>
   fst (convertFiles [''good.smd'', ''tiny.smd''] ''out'' STOP rom_world) = False \<and>
   opened (trace (snd (convertFiles [''good.smd'', ''tiny.smd''] ''out'' STOP rom_world))) = [] \<and>
   fst (convertFiles [''good.smd''] ''out'' SKIP rom_world) = True \<and>
   files (snd (convertFiles [''good.smd''] ''out'' SKIP rom_world)) ''out/good.bin'' =
     Some [1, 2, 3] \<and>
   files rom_world ''good.smd'' = Some (smd_header @ replicate 16384 0x41) \<and>
   readable rom_world ''good.smd'' \<and> writable rom_world ''out/good.bin'' \<and>
   length (smd_header @ replicate 16384 (0x41::byte)) = 512 + 1 * 16384 \<and>
   (0::nat) < 1 \<and> 1 * 16384 \<le> space rom_world \<and>
   fst (convertFiles [''good.smd''] ''out'' WARN rom_world) = True \<and>
   files (snd (convertFiles [''good.smd''] ''out'' WARN rom_world)) ''out/good.bin'' =
     Some (decoded_blocks (smd_header @ replicate 16384 0x41) 0 1)"
proof -
  have ex: "QFileInfo_exists rom_world (outFileFullPath_of ''out'' ''good.smd'')"
    by (simp add: out_paths rom_world_exists)
  have t: "trace rom_world = []" by (simp add: rom_world_def)
  have pre: "files rom_world ''good.smd'' = Some (smd_header @ replicate 16384 0x41) \<and>
      readable rom_world ''good.smd'' \<and>
      writable rom_world (outFileFullPath_of ''out'' ''good.smd'') \<and>
      length (smd_header @ replicate 16384 (0x41::byte)) = 512 + 1 * 16384 \<and>
      (0::nat) < 1 \<and> 1 * 16384 \<le> space rom_world"
    by (simp add: rom_world_def smd_header_def)
  note P = convertFiles_collision_policy [OF ex, unfolded Let_def]
  have stop: "convertFiles [''good.smd'', ''tiny.smd''] ''out'' STOP rom_world =
      (False, print Cerr ''  NGROM WARNING: Output file already exists!''
                (print Cout (''        to '' @ outFileFullPath_of ''out'' ''good.smd'')
                   (print Cout (''Converting '' @ ''good.smd'') rom_world)))"
    by (rule P [of "[''tiny.smd'']", THEN conjunct1])
  have skip: "convertFiles [''good.smd''] ''out'' SKIP rom_world =
      convertFiles [] ''out'' SKIP
        (print Cout ''  ...skipping!''
          (print Cerr ''  NGROM WARNING: Output file already exists!''
                (print Cout (''        to '' @ outFileFullPath_of ''out'' ''good.smd'')
                   (print Cout (''Converting '' @ ''good.smd'') rom_world))))"
    by (rule P [of "[]", THEN conjunct2, THEN conjunct1])
  have warn: "convertFiles [''good.smd''] ''out'' WARN rom_world =
      convertFiles [] ''out'' WARN
        (print Cout ''  Conversion complete!''
           ((print Cerr ''  NGROM WARNING: Output file already exists!''
                (print Cout (''        to '' @ outFileFullPath_of ''out'' ''good.smd'')
                   (print Cout (''Converting '' @ ''good.smd'') rom_world)))
              \<lparr>files := (files rom_world)(outFileFullPath_of ''out'' ''good.smd'' \<mapsto>
                    decoded_blocks (smd_header @ replicate 16384 0x41) 0 1),
               space := space rom_world - 1 * 16384,
               trace := trace (print Cerr ''  NGROM WARNING: Output file already exists!''
                (print Cout (''        to '' @ outFileFullPath_of ''out'' ''good.smd'')
                   (print Cout (''Converting '' @ ''good.smd'') rom_world)))
                 @ [Fopen ''good.smd'' ''r'', Fopen (outFileFullPath_of ''out'' ''good.smd'') ''w'']\<rparr>))"
    using P [of "[]", THEN conjunct2, THEN conjunct2, THEN conjunct2, rule_format, OF pre] .
  have "fst (convertFiles [''good.smd'', ''tiny.smd''] ''out'' STOP rom_world) = False"
    "opened (trace (snd (convertFiles [''good.smd'', ''tiny.smd''] ''out'' STOP rom_world))) = []"
    unfolding stop by (simp_all add: t)
  moreover have "fst (convertFiles [''good.smd''] ''out'' SKIP rom_world) = True"
    "files (snd (convertFiles [''good.smd''] ''out'' SKIP rom_world)) ''out/good.bin'' =
       Some [1, 2, 3]"
    unfolding skip by (simp_all add: rom_world_def)
  moreover have "fst (convertFiles [''good.smd''] ''out'' WARN rom_world) = True"
    "files (snd (convertFiles [''good.smd''] ''out'' WARN rom_world)) ''out/good.bin'' =
       Some (decoded_blocks (smd_header @ replicate 16384 0x41) 0 1)"
    unfolding warn by (simp_all add: out_paths print_def)
  ultimately show ?thesis using ex pre by (simp add: out_paths del: convertFiles.simps)
qed

section \<open>Properties of the Info Reporter\<close>

lemma fread_at:
  "fread buf n \<lparr>data = d, pos = p\<rparr> =
     (take n (drop p d) @ drop (min n (length d - p)) buf, min n (length d - p),
      \<lparr>data = d, pos = p + min n (length d - p)\<rparr>)"
  by (simp add: fread_def Let_def min.commute)

text \<open>
  A file detected as SMD whose block read returns at least 512 bytes is decoded, whether
  or not the read filled the block: what the read did not fill is what \<open>tmpSMDBlock\<close>
  held before.
\<close>

lemma showInfo_file_SMD_block:
  assumes "files w f = Some (h @ r)" and "readable w f" and "length h = 512"
    and "getLikelyFormat (h @ replicate 15872 0) = SMD"
    and "512 \<le> length r" and "length hb = 16384"
  shows "showInfo_file f hb sb w =
           (decodeSMDBlock (replicate 16384 0) (take 16384 r @ drop (min 16384 (length r)) sb),
            take 16384 r @ drop (min 16384 (length r)) sb,
            showHeaderFields
              (decodeSMDBlock (replicate 16384 0) (take 16384 r @ drop (min 16384 (length r)) sb))
              (w\<lparr>trace := trace w @
                   [Print Cout (''Showing info from ROM data for file: '' @ f), Fopen f ''r'']\<rparr>))"
proof -
  let ?w0 = "print Cout (''Showing info from ROM data for file: '' @ f) w"
  let ?w1 = "w\<lparr>trace := trace w @
                   [Print Cout (''Showing info from ROM data for file: '' @ f), Fopen f ''r'']\<rparr>"
  have op: "fopen_r f ?w0 = (Inr \<lparr>data = h @ r, pos = 0\<rparr>, ?w1)"
    using assms(1,2) by (simp add: fopen_r_def Let_def print_def)
  have ms: "memset hb 0 16384 = replicate 16384 0"
    using assms(6) by (simp add: memset_def)
  have r1: "fread (replicate 16384 0) 512 \<lparr>data = h @ r, pos = 0\<rparr> =
      (h @ replicate 15872 0, 512, \<lparr>data = h @ r, pos = 512\<rparr>)"
    using assms(3) by (simp add: fread_at)
  have r2: "fread sb 16384 \<lparr>data = h @ r, pos = 512\<rparr> =
      (take 16384 r @ drop (min 16384 (length r)) sb, min 16384 (length r),
       \<lparr>data = h @ r, pos = 512 + min 16384 (length r)\<rparr>)"
    using assms(3) by (simp add: fread_at)
  have ge: "\<not> min 16384 (length r) < 512" using assms(5) by simp
  have ms2: "memset (h @ replicate 15872 0) 0 16384 = replicate 16384 0"
    using assms(3) by (simp add: memset_def)
  show ?thesis
    unfolding showInfo_file_def Let_def NUM_HEADER_BYTES_def NUM_SMD_BLOCK_BYTES_def
    by (simp only: op prod.case sum.case ms r1 r2 assms(4) ge ms2 if_False if_True
        RomFormat.distinct refl simp_thms) simp
qed


text \<open>
  The test on the block read does skip the file when fewer than 512 bytes follow the
  header.
\<close>

lemma showInfo_file_SMD_skipped:
  assumes "files w f = Some (h @ r)" and "readable w f" and "length h = 512"
    and "getLikelyFormat (h @ replicate 15872 0) = SMD"
    and "length r < 512" and "length hb = 16384"
  shows "showInfo_file f hb sb w =
           (h @ replicate 15872 0, r @ drop (length r) sb,
            w\<lparr>trace := trace w @
                 [Print Cout (''Showing info from ROM data for file: '' @ f), Fopen f ''r'',
                  Print Cerr ''  NGROM ERROR: Incomplete read...'',
                  Print Cout ''  ... skipping.'']\<rparr>)"
proof -
  let ?w0 = "print Cout (''Showing info from ROM data for file: '' @ f) w"
  let ?w1 = "w\<lparr>trace := trace w @
                   [Print Cout (''Showing info from ROM data for file: '' @ f), Fopen f ''r'']\<rparr>"
  have op: "fopen_r f ?w0 = (Inr \<lparr>data = h @ r, pos = 0\<rparr>, ?w1)"
    using assms(1,2) by (simp add: fopen_r_def Let_def print_def)
  have ms: "memset hb 0 16384 = replicate 16384 0"
    using assms(6) by (simp add: memset_def)
  have r1: "fread (replicate 16384 0) 512 \<lparr>data = h @ r, pos = 0\<rparr> =
      (h @ replicate 15872 0, 512, \<lparr>data = h @ r, pos = 512\<rparr>)"
    using assms(3) by (simp add: fread_at)
  have r2: "fread sb 16384 \<lparr>data = h @ r, pos = 512\<rparr> =
      (r @ drop (length r) sb, length r, \<lparr>data = h @ r, pos = 512 + length r\<rparr>)"
    using assms(3,5) by (simp add: fread_at min_def)
  show ?thesis
    unfolding showInfo_file_def Let_def NUM_HEADER_BYTES_def NUM_SMD_BLOCK_BYTES_def
    by (simp only: op prod.case sum.case ms r1 r2 assms(4,5) if_False if_True
        RomFormat.distinct refl simp_thms) (simp add: print_def)
qed

lemma showInfoList_single:
  "showInfoList [f] w =
     snd (snd (showInfo_file f (replicate 16384 0) (replicate 16384 0) w))"
  by (simp add: showInfoList_def NUM_SMD_BLOCK_BYTES_def split: prod.split)

lemma smd_header_format: "getLikelyFormat (smd_header @ replicate 15872 0) = SMD"
proof -
  let ?h = "smd_header @ replicate 15872 (0::byte)"
  have "0x100 + 4 \<le> length ?h" by (simp add: smd_header_def)
  then have m: "(0 = memcmp (drop 0x100 ?h) (bytes_of ''SEGA'') 4) =
      (?h ! 0x100 = 0x53 \<and> ?h ! (0x100 + 1) = 0x45 \<and> ?h ! (0x100 + 2) = 0x47 \<and>
       ?h ! (0x100 + 3) = 0x41)"
    by (rule memcmp_SEGA_at)
  have "?h ! 0x100 = 0" "?h ! 8 = 0xAA" "?h ! 9 = 0xBB"
    by (simp_all add: smd_header_def nth_append)
  then show ?thesis
    unfolding getLikelyFormat_def m by simp
qed

lemma to_char_values: "to_char 0 = CHR 0x00" "to_char 0x41 = CHR ''A''"
proof -
  have "char_of (of_char (CHR 0x00) :: nat) = CHR 0x00" by (rule char_of_char)
  then show "to_char 0 = CHR 0x00" by (simp add: to_char_def)
  have "char_of (of_char (CHR ''A'') :: nat) = CHR ''A''" by (rule char_of_char)
  then show "to_char 0x41 = CHR ''A''" by (simp add: to_char_def)
qed

lemma short_block_decoded:
  "decodeSMDBlock (replicate 16384 0) (replicate 600 0x41 @ replicate 15784 0) ! 0x180 = 0"
  "decodeSMDBlock (replicate 16384 0) (replicate 600 0x41 @ replicate 15784 0) ! 0x181 = 0x41"
  by (simp_all add: decodeSMDBlock_nth nth_append)

text \<open>
  Claim C4 at a file with an SMD header followed by 600 bytes: the block read is short
  (600 of 16384 bytes), yet no error is printed and the file is not skipped. The header
  fields are printed from a block decoded out of the 600 bytes and the zeros left in the
  buffer: the software type shows a zero byte and the letter A.
\<close>

theorem showInfoList_decodes_short_block:
  "files rom_world ''short.smd'' = Some (smd_header @ replicate 600 0x41) \<and>
   length (smd_header @ replicate 600 (0x41::byte)) - 512 = 600 \<and>
   Print Cerr ''  NGROM ERROR: Incomplete read...''
     \<notin> set (trace (showInfoList [''short.smd''] rom_world)) \<and>
   length (trace (showInfoList [''short.smd''] rom_world)) = 15 \<and>
   trace (showInfoList [''short.smd''] rom_world) ! 6 =
     Print Cout (''             Software type: '' @ [CHR 0x00, CHR ''A''])"
proof -
  have f: "files rom_world ''short.smd'' = Some (smd_header @ replicate 600 0x41)"
    and rd: "readable rom_world ''short.smd''" and t: "trace rom_world = []"
    by (simp_all add: rom_world_def)
  have len: "length smd_header = 512" by (simp add: smd_header_def)
  let ?dec = "decodeSMDBlock (replicate 16384 0) (replicate 600 0x41 @ replicate 15784 0)"
  have "showInfo_file ''short.smd'' (replicate 16384 0) (replicate 16384 0) rom_world =
      (?dec, replicate 600 0x41 @ replicate 15784 0,
       showHeaderFields ?dec
         (rom_world\<lparr>trace := trace rom_world @
            [Print Cout (''Showing info from ROM data for file: '' @ ''short.smd''),
             Fopen ''short.smd'' ''r'']\<rparr>))"
    using showInfo_file_SMD_block [OF f rd len smd_header_format, of "replicate 16384 0"
        "replicate 16384 0"]
    by simp
  then have tr: "trace (showInfoList [''short.smd''] rom_world) =
      trace (showHeaderFields ?dec
         (rom_world\<lparr>trace := trace rom_world @
            [Print Cout (''Showing info from ROM data for file: '' @ ''short.smd''),
             Fopen ''short.smd'' ''r'']\<rparr>))"
    by (simp only: showInfoList_single snd_conv)
  have st: "softwareType ?dec = [CHR 0x00, CHR ''A'']"
    by (simp add: softwareType_def short_block_decoded to_char_values)
  show ?thesis
    unfolding tr showHeaderFields_trace
    using f len by (simp add: t st)
qed

end
